theory Spec2Isabelle
  imports Complex_Main "HOL-Library.Word"
begin

unbundle bit_operations_syntax

section \<open>Floating-point arithmetic of the source\<close>

text \<open>
  The synthesizer computes in C++ \<open>float\<close> (IEEE-754 binary32), the host computes the
  sample budget in \<open>double\<close> (binary64). A float value is modelled by the real number it
  denotes, and every arithmetic operation of the source by the exact operation followed
  by rounding to the nearest value with \<open>p\<close> significant bits, ties to even
  (\<open>p = 24\<close> for float, \<open>p = 53\<close> for double). The exponent range is unbounded here:
  overflow of a finite result and subnormal numbers are outside the model, zero has no
  sign, and each operation is rounded once (no fused multiply-add, no extended
  precision).

  The one operation of the synthesizer that can leave the finite numbers is the division
  by the sample rate, which the host passes on unchecked: dividing by zero gives an
  infinity or NaN. It feeds the phase and, through the waveform, the samples, so these two
  are values of \<open>fval\<close>, a finite float, an infinity or NaN, with the arithmetic of IEEE-754
  on them; frequency, sample rate, envelope and gain stay finite.
\<close>

definition rne :: "real \<Rightarrow> int" where
  \<comment> \<open>round to the nearest integer, ties to the even one\<close>
  "rne x = (let f = \<lfloor>x\<rfloor> in
     if x - of_int f < 1 / 2 then f
     else if 1 / 2 < x - of_int f then f + 1
     else if even f then f else f + 1)"

definition rnd :: "nat \<Rightarrow> real \<Rightarrow> real" where
  \<comment> \<open>round to \<open>p\<close> significant bits\<close>
  "rnd p x = (if x = 0 then 0
     else let e = \<lfloor>log 2 \<bar>x\<bar>\<rfloor> + 1 - int p
          in of_int (rne (x / 2 powi e)) * 2 powi e)"

definition f32 :: "real \<Rightarrow> real" where
  "f32 x = rnd 24 x"

definition f64 :: "real \<Rightarrow> real" where
  "f64 x = rnd 53 x"

definition rnd_at :: "nat \<Rightarrow> int \<Rightarrow> real \<Rightarrow> real" where
  \<comment> \<open>\<open>rnd p x\<close> for an \<open>x\<close> whose binade \<open>2 ^ k \<le> \<bar>x\<bar> < 2 ^ (k + 1)\<close> is known\<close>
  "rnd_at p k x = of_int (rne (x / 2 powi (k + 1 - int p))) * 2 powi (k + 1 - int p)"

datatype fval = Finite real | PosInf | NegInf | NaN

definition fdiv :: "real \<Rightarrow> real \<Rightarrow> fval" where
  \<comment> \<open>\<open>x / y\<close> on two finite floats\<close>
  "fdiv x y =
     (if y \<noteq> 0 then Finite (f32 (x / y))
      else if 0 < x then PosInf else if x < 0 then NegInf else NaN)"

fun fneg :: "fval \<Rightarrow> fval" where
  "fneg (Finite a) = Finite (- a)"
| "fneg PosInf = NegInf"
| "fneg NegInf = PosInf"
| "fneg NaN = NaN"

fun fadd :: "fval \<Rightarrow> fval \<Rightarrow> fval" where
  "fadd (Finite a) (Finite b) = Finite (f32 (a + b))"
| "fadd NaN y = NaN"
| "fadd x NaN = NaN"
| "fadd PosInf NegInf = NaN"
| "fadd NegInf PosInf = NaN"
| "fadd PosInf y = PosInf"
| "fadd x PosInf = PosInf"
| "fadd NegInf y = NegInf"
| "fadd x NegInf = NegInf"

fun fsub :: "fval \<Rightarrow> fval \<Rightarrow> fval" where
  "fsub (Finite a) (Finite b) = Finite (f32 (a - b))"
| "fsub x y = fadd x (fneg y)"

definition infTimes :: "bool \<Rightarrow> real \<Rightarrow> fval" where
  \<comment> \<open>plus infinity (\<open>True\<close>) or minus infinity times a finite float\<close>
  "infTimes positive a =
     (if a = 0 then NaN else if (0 < a) = positive then PosInf else NegInf)"

fun fmul :: "fval \<Rightarrow> fval \<Rightarrow> fval" where
  "fmul (Finite a) (Finite b) = Finite (f32 (a * b))"
| "fmul NaN y = NaN"
| "fmul x NaN = NaN"
| "fmul PosInf (Finite b) = infTimes True b"
| "fmul NegInf (Finite b) = infTimes False b"
| "fmul (Finite a) PosInf = infTimes True a"
| "fmul (Finite a) NegInf = infTimes False a"
| "fmul PosInf PosInf = PosInf"
| "fmul NegInf NegInf = PosInf"
| "fmul PosInf NegInf = NegInf"
| "fmul NegInf PosInf = NegInf"

fun fless :: "fval \<Rightarrow> fval \<Rightarrow> bool" where
  \<comment> \<open>\<open>x < y\<close>; every comparison with NaN is false\<close>
  "fless (Finite a) (Finite b) = (a < b)"
| "fless NaN y = False"
| "fless x NaN = False"
| "fless x NegInf = False"
| "fless NegInf y = True"
| "fless PosInf y = False"
| "fless x PosInf = True"

fun fsin :: "fval \<Rightarrow> fval" where
  \<comment> \<open>\<open>std::sin\<close> on float, taken as correctly rounded on finite arguments\<close>
  "fsin (Finite x) = Finite (f32 (sin x))"
| "fsin x = NaN"



definition wrap32 :: "int \<Rightarrow> int" where
  \<comment> \<open>a C++ \<open>int\<close> after an arithmetic operation: two's complement wrap-around\<close>
  "wrap32 x = (x + 2 ^ 31) mod 2 ^ 32 - 2 ^ 31"

definition castInt :: "real \<Rightarrow> int" where
  \<comment> \<open>\<open>(int) x\<close> for a double \<open>x\<close>: truncation towards zero; out of range (undefined in
      C++) it is the value the x86 conversion returns\<close>
  "castInt x = (let t = (if 0 \<le> x then \<lfloor>x\<rfloor> else \<lceil>x\<rceil>)
     in if - (2 ^ 31) \<le> t \<and> t < 2 ^ 31 then t else - (2 ^ 31))"


section \<open>MIDI messages (the part of \<open>juce::MidiMessage\<close> the program uses)\<close>

type_synonym byte = "8 word"

text \<open>
  The program builds and inspects MIDI messages through the JUCE library. A
  \<open>juce::MidiMessage\<close> is its raw bytes, and the functions below compute on these bytes
  what the library's functions of the same names compute; a \<open>juce::MidiBuffer\<close> whose
  events all sit at sample position 0 is the list of its messages in insertion order.
\<close>

type_synonym MidiMessage = "byte list"
type_synonym MidiBuffer = "MidiMessage list"

definition MidiMessage_default :: MidiMessage where
  \<comment> \<open>the default constructor: an empty sysex message\<close>
  "MidiMessage_default = [0xF0, 0xF7]"

definition jlimit :: "int \<Rightarrow> int \<Rightarrow> int \<Rightarrow> int" where
  "jlimit lo hi v = (if v < lo then lo else if hi < v then hi else v)"

definition initialByte :: "byte \<Rightarrow> int \<Rightarrow> byte" where
  "initialByte type channel = type OR word_of_int (jlimit 0 15 (channel - 1))"

definition validVelocity :: "int \<Rightarrow> byte" where
  "validVelocity v = word_of_int (jlimit 0 127 v)"

definition floatValueToMidiByte :: "real \<Rightarrow> byte" where
  "floatValueToMidiByte v = validVelocity (rne (f32 (v * 127)))"

definition MidiMessage_noteOn :: "int \<Rightarrow> byte \<Rightarrow> real \<Rightarrow> MidiMessage" where
  "MidiMessage_noteOn channel noteNumber velocity =
     [initialByte 0x90 channel, noteNumber AND 127, floatValueToMidiByte velocity]"

definition MidiMessage_noteOff :: "int \<Rightarrow> byte \<Rightarrow> real \<Rightarrow> MidiMessage" where
  "MidiMessage_noteOff channel noteNumber velocity =
     [initialByte 0x80 channel, noteNumber AND 127, floatValueToMidiByte velocity]"

definition MidiMessage_controllerEvent :: "int \<Rightarrow> byte \<Rightarrow> byte \<Rightarrow> MidiMessage" where
  "MidiMessage_controllerEvent channel controllerType val =
     [initialByte 0xB0 channel, controllerType AND 127, val AND 127]"

fun isNoteOn :: "MidiMessage \<Rightarrow> bool" where
  "isNoteOn (status # d1 # d2 # ds) = (status AND 0xF0 = 0x90 \<and> d2 \<noteq> 0)"
| "isNoteOn m = False"

fun isNoteOff :: "MidiMessage \<Rightarrow> bool" where
  "isNoteOff (status # d1 # d2 # ds) =
     (status AND 0xF0 = 0x80 \<or> (d2 = 0 \<and> status AND 0xF0 = 0x90))"
| "isNoteOff m = False"

fun getNoteNumber :: "MidiMessage \<Rightarrow> int" where
  "getNoteNumber (status # d1 # ds) = uint d1"
| "getNoteNumber m = 0"

definition getMidiNoteInHertz :: "int \<Rightarrow> real" where
  \<comment> \<open>\<open>440.0 * std::pow (2.0, (noteNumber - 69) / 12.0)\<close>, in double\<close>
  "getMidiNoteInHertz noteNumber =
     f64 (440 * f64 (2 powr f64 (of_int (noteNumber - 69) / 12)))"


section \<open>The synthesizer: \<open>SimpleSynthAudioProcessor\<close>\<close>

record Voice =
  phase :: fval
  currentFrequency :: real
  sampleRate :: real
  envelope :: real
  noteOn :: bool

text \<open>The three parameter pointers; \<open>None\<close> is the null pointer. The choice parameter
  has the four entries Sine, Square, Sawtooth, Triangle, so \<open>getIndex\<close> is 0 to 3.\<close>

record Params =
  frequencyParam :: "real option"
  gainParam :: "real option"
  waveformParam :: "int option"

type_synonym AudioBuffer = "fval list list"

definition Voice_init :: Voice where
  \<comment> \<open>the member initialisers of the class\<close>
  "Voice_init = \<lparr>phase = Finite 0, currentFrequency = 440, sampleRate = 44100, envelope = 0,
     noteOn = False\<rparr>"

definition updateParameters :: "Params \<Rightarrow> Voice \<Rightarrow> Voice" where
  "updateParameters P v =
     (case frequencyParam P of Some f \<Rightarrow> v\<lparr>currentFrequency := f\<rparr> | None \<Rightarrow> v)"

definition prepareToPlay :: "real \<Rightarrow> Voice \<Rightarrow> Voice" where
  "prepareToPlay sr v = v\<lparr>sampleRate := f32 sr, phase := Finite 0\<rparr>"

definition handleMidi :: "Voice \<Rightarrow> MidiMessage \<Rightarrow> Voice" where
  \<comment> \<open>the body of the loop over \<open>midiMessages\<close>\<close>
  "handleMidi v msg =
     (if isNoteOn msg then
        v\<lparr>currentFrequency := f32 (getMidiNoteInHertz (getNoteNumber msg)),
          noteOn := True, envelope := 0\<rparr>
      else if isNoteOff msg then v\<lparr>noteOn := False\<rparr>
      else v)"

definition envelopeStep :: "bool \<Rightarrow> real \<Rightarrow> real" where
  \<comment> \<open>"Simple envelope (attack and release)"\<close>
  "envelopeStep on e =
     (if on then min (f32 (e + f32 (1 / 100))) 1 else max (f32 (e - f32 (1 / 50))) 0)"

definition twoPi :: real where
  \<comment> \<open>\<open>juce::MathConstants<float>::twoPi\<close>, the float nearest to \<open>2 * pi\<close>\<close>
  "twoPi = 13176795 / 2097152"

definition advancePhase :: "Voice \<Rightarrow> fval" where
  \<comment> \<open>\<open>phaseIncrement = currentFrequency / sampleRate; phase += phaseIncrement;
      if (phase > 1.0f) phase -= 1.0f;\<close>\<close>
  "advancePhase v =
     (let phaseIncrement = fdiv (currentFrequency v) (sampleRate v);
          ph = fadd (phase v) phaseIncrement
      in if fless (Finite 1) ph then fsub ph (Finite 1) else ph)"

definition waveformSwitch :: "int \<Rightarrow> fval \<Rightarrow> fval" where
  \<comment> \<open>\<open>output = 0.0f; switch (waveform) { case 0: ... case 3: ... }\<close>, without default\<close>
  "waveformSwitch waveform ph =
     (if waveform = 0 then fsin (fmul ph (Finite twoPi))
      else if waveform = 1 then (if fless ph (Finite (1 / 2)) then Finite 1 else Finite (- 1))
      else if waveform = 2 then fsub (fmul (Finite 2) ph) (Finite 1)
      else if waveform = 3 then
        (if fless ph (Finite (1 / 2)) then fsub (fmul (Finite 4) ph) (Finite 1)
         else fsub (Finite 3) (fmul (Finite 4) ph))
      else Finite 0)"

definition getIndex :: "Params \<Rightarrow> int" where
  \<comment> \<open>\<open>waveformParam ? waveformParam->getIndex() : 0\<close>\<close>
  "getIndex P = (case waveformParam P of Some i \<Rightarrow> i | None \<Rightarrow> 0)"

definition getGain :: "Params \<Rightarrow> real" where
  \<comment> \<open>\<open>gainParam ? gainParam->get() : 0.3f\<close>\<close>
  "getGain P = (case gainParam P of Some g \<Rightarrow> g | None \<Rightarrow> f32 (3 / 10))"

definition renderSample :: "Params \<Rightarrow> real \<Rightarrow> Voice \<Rightarrow> Voice \<times> fval" where
  \<comment> \<open>one iteration of the sample loop; \<open>P\<close> is the Parameter Store as it stands when
      this iteration reads the waveform selector, \<open>gain\<close> the local read before the loop\<close>
  "renderSample P gain v =
     (let env = envelopeStep (noteOn v) (envelope v);
          waveform = getIndex P;
          ph = advancePhase v;
          output = waveformSwitch waveform ph
      in (v\<lparr>envelope := env, phase := ph\<rparr>, fmul output (Finite (f32 (env * gain)))))"

fun renderSamples :: "(nat \<Rightarrow> Params) \<Rightarrow> real \<Rightarrow> nat \<Rightarrow> nat \<Rightarrow> Voice \<Rightarrow> Voice \<times> fval list" where
  \<comment> \<open>the sample loop from index \<open>i\<close>, \<open>n\<close> samples to go; \<open>store i\<close> is the Parameter
      Store during iteration \<open>i\<close>\<close>
  "renderSamples store gain i 0 v = (v, [])"
| "renderSamples store gain i (Suc n) v =
     (let (v1, out) = renderSample (store i) gain v;
          (v2, outs) = renderSamples store gain (Suc i) n v1
      in (v2, out # outs))"

definition getNumSamples :: "AudioBuffer \<Rightarrow> nat" where
  "getNumSamples buffer = (case buffer of [] \<Rightarrow> 0 | ch # chs \<Rightarrow> length ch)"

definition getTotalNumOutputChannels :: nat where
  \<comment> \<open>the one stereo output bus of the constructor; there is no input bus\<close>
  "getTotalNumOutputChannels = 2"

definition processBlock :: "(nat \<Rightarrow> Params) \<Rightarrow> Voice \<Rightarrow> MidiBuffer \<Rightarrow> AudioBuffer \<Rightarrow> Voice \<times> AudioBuffer" where
  \<comment> \<open>\<open>store 0\<close> is the Parameter Store at the start of the block; the buffer has the two
      channels of the output bus, both cleared first, then channel 0 is generated and
      copied to channel 1\<close>
  "processBlock store v midiMessages buffer =
     (let v1 = updateParameters (store 0) v;
          cleared = map (\<lambda>ch. replicate (length ch) (Finite 0)) buffer;
          v2 = foldl handleMidi v1 midiMessages;
          gain = getGain (store 0);
          (v3, channelData) = renderSamples store gain 0 (getNumSamples buffer) v2;
          left = cleared[0 := channelData]
      in (v3, if getTotalNumOutputChannels > 1 then left[1 := channelData] else left))"

text \<open>
  The reference of the specification for one block: the waveform selector and the gain
  are read from the Parameter Store once, at the start of the block, and these two values
  serve every sample. Per sample: advance the envelope, advance and wrap the phase,
  generate the waveform sample, scale by envelope times gain. The buffer is filled as the
  code fills it.
\<close>

fun renderSamplesReadOnce :: "int \<Rightarrow> real \<Rightarrow> nat \<Rightarrow> Voice \<Rightarrow> Voice \<times> fval list" where
  "renderSamplesReadOnce waveform gain 0 v = (v, [])"
| "renderSamplesReadOnce waveform gain (Suc n) v =
     (let env = envelopeStep (noteOn v) (envelope v);
          ph = advancePhase v;
          out = fmul (waveformSwitch waveform ph) (Finite (f32 (env * gain)));
          (v2, outs) = renderSamplesReadOnce waveform gain n (v\<lparr>envelope := env, phase := ph\<rparr>)
      in (v2, out # outs))"

definition processBlockReadOnce :: "(nat \<Rightarrow> Params) \<Rightarrow> Voice \<Rightarrow> MidiBuffer \<Rightarrow> AudioBuffer \<Rightarrow> Voice \<times> AudioBuffer" where
  "processBlockReadOnce store v midiMessages buffer =
     (let v1 = updateParameters (store 0) v;
          cleared = map (\<lambda>ch. replicate (length ch) (Finite 0)) buffer;
          v2 = foldl handleMidi v1 midiMessages;
          gain = getGain (store 0);
          waveform = getIndex (store 0);
          (v3, channelData) = renderSamplesReadOnce waveform gain (getNumSamples buffer) v2;
          left = cleared[0 := channelData]
      in (v3, if getTotalNumOutputChannels > 1 then left[1 := channelData] else left))"

text \<open>A run of the engine: \<open>processBlock\<close> once per block, each block with the Parameter
  Store and the MIDI buffer it is called with.\<close>

fun runBlocks :: "Voice \<Rightarrow> ((nat \<Rightarrow> Params) \<times> MidiBuffer) list \<Rightarrow> AudioBuffer \<Rightarrow> Voice \<times> AudioBuffer list" where
  "runBlocks v [] buffer = (v, [])"
| "runBlocks v (b # bs) buffer =
     (let (v1, out) = processBlock (fst b) v (snd b) buffer;
          (v2, outs) = runBlocks v1 bs buffer
      in (v2, out # outs))"

fun sameButVelocity :: "MidiMessage \<Rightarrow> MidiMessage \<Rightarrow> bool" where
  \<comment> \<open>the same message, or two Note On messages that differ in their velocity byte only,
      both velocities in 1 to 127\<close>
  "sameButVelocity (s # d1 # d2 # ds) (s' # d1' # d2' # ds') =
     (s = s' \<and> d1 = d1' \<and> ds = ds'
      \<and> (d2 = d2' \<or> (s AND 0xF0 = 0x90 \<and> 1 \<le> d2 \<and> d2 \<le> 127 \<and> 1 \<le> d2' \<and> d2' \<le> 127)))"
| "sameButVelocity m m' = (m = m')"

definition sameBlocks :: "(nat \<Rightarrow> Params) \<times> MidiBuffer \<Rightarrow> (nat \<Rightarrow> Params) \<times> MidiBuffer \<Rightarrow> bool" where
  "sameBlocks b b' \<longleftrightarrow> fst b = fst b' \<and> list_all2 sameButVelocity (snd b) (snd b')"

text \<open>What a caller of the engine controls in one block: the Parameter Store at the
  start of the block and the MIDI buffer. For a bound \<open>r\<close> (the sample rate in use), the
  block is in range when the frequency parameter lies in \<open>[0, r]\<close>, the gain in \<open>[0, 1]\<close>,
  and the frequency of every Note On is at most \<open>r\<close>. A voice is in range when its phase
  and its envelope lie in \<open>[0, 1]\<close>, its sample rate is \<open>r\<close> and its frequency lies in
  \<open>[0, r]\<close>.\<close>

definition frequencyInRange :: "real \<Rightarrow> Params \<Rightarrow> bool" where
  "frequencyInRange r P =
     (case frequencyParam P of None \<Rightarrow> True | Some f \<Rightarrow> 0 \<le> f \<and> f \<le> r)"

definition gainInRange :: "Params \<Rightarrow> bool" where
  "gainInRange P = (0 \<le> getGain P \<and> getGain P \<le> 1)"

definition noteInRange :: "real \<Rightarrow> MidiMessage \<Rightarrow> bool" where
  "noteInRange r m =
     (if isNoteOn m then f32 (getMidiNoteInHertz (getNoteNumber m)) \<le> r else True)"

definition blockInRange :: "real \<Rightarrow> (nat \<Rightarrow> Params) \<times> MidiBuffer \<Rightarrow> bool" where
  "blockInRange r b =
     (frequencyInRange r (fst b 0) \<and> gainInRange (fst b 0) \<and> list_all (noteInRange r) (snd b))"


text \<open>Inputs of the examples: the Parameter Store with the defaults of the parameter
  layout; a store whose waveform selector is changed (by another thread) from Square to
  Sawtooth after the first sample of a block; a store whose gain is changed after the
  first sample; a voice holding a note at full envelope.\<close>

definition defaultParams :: Params where
  "defaultParams = \<lparr>frequencyParam = Some 440, gainParam = Some (f32 (7 / 10)),
     waveformParam = Some 0\<rparr>"

definition waveformChangingStore :: "nat \<Rightarrow> Params" where
  "waveformChangingStore i = \<lparr>frequencyParam = Some 11025, gainParam = Some 1,
     waveformParam = Some (if i = 0 then 1 else 2)\<rparr>"

definition gainChangingStore :: "nat \<Rightarrow> Params" where
  "gainChangingStore i = \<lparr>frequencyParam = Some 11025,
     gainParam = Some (if i = 0 then 1 else 1 / 2), waveformParam = Some 2\<rparr>"

definition sawtoothAt20000 :: "nat \<Rightarrow> Params" where
  \<comment> \<open>the highest frequency of the declared range, Sawtooth, full gain\<close>
  "sawtoothAt20000 i = \<lparr>frequencyParam = Some 20000, gainParam = Some 1,
     waveformParam = Some 2\<rparr>"

definition heldVoice :: Voice where
  "heldVoice = \<lparr>phase = Finite 0, currentFrequency = 11025, sampleRate = 44100, envelope = 1,
     noteOn = True\<rparr>"


section \<open>The host: \<open>StdinMidiReader\<close>, \<open>StdoutAudioWriter\<close>, \<open>OfflineRenderer\<close>\<close>

record CommandLineOptions =
  duration :: real
  optSampleRate :: int
  blockSize :: int
  numChannels :: int

definition defaultOptions :: CommandLineOptions where
  "defaultOptions = \<lparr>duration = 0, optSampleRate = 44100, blockSize = 512, numChannels = 2\<rparr>"

text \<open>Standard input: the bytes not yet read and the stream's end-of-file flag. A read
  that asks for more bytes than are left takes what is left and sets the flag.\<close>

record Cin =
  bytes :: "byte list"
  eofbit :: bool

definition cin_read :: "nat \<Rightarrow> Cin \<Rightarrow> byte list \<times> Cin" where
  "cin_read n c =
     (if eofbit c then ([], c)
      else if n \<le> length (bytes c) then (take n (bytes c), c\<lparr>bytes := drop n (bytes c)\<rparr>)
      else (bytes c, c\<lparr>bytes := [], eofbit := True\<rparr>))"

definition dataBytesOf :: "byte \<Rightarrow> nat option" where
  \<comment> \<open>"Determine how many data bytes to read"; \<open>None\<close> is "Unsupported message type"\<close>
  "dataBytesOf status =
     (if status AND 0xF0 = 0x80 \<or> status AND 0xF0 = 0x90 \<or> status AND 0xF0 = 0xB0 then Some 2
      else if status AND 0xF0 = 0xC0 \<or> status AND 0xF0 = 0xD0 then Some 1
      else None)"

definition readNextEvent :: "MidiMessage \<Rightarrow> Cin \<Rightarrow> bool \<times> MidiMessage \<times> Cin" where
  \<comment> \<open>the result, the value of the reference parameter \<open>msg\<close> afterwards, the stream\<close>
  "readNextEvent msg c =
     (let (b0, c1) = cin_read 1 c in
      if length b0 \<noteq> 1 then (False, msg, c1)
      else
        let status = b0 ! 0 in
        case dataBytesOf status of
          None \<Rightarrow> (False, msg, c1)
        | Some dataBytes \<Rightarrow>
            let (d, c2) = cin_read dataBytes c1 in
            if length d \<noteq> dataBytes then (False, msg, c2)
            else if status AND 0xF0 = 0x90 then
              (True, MidiMessage_noteOn (uint (status AND 0x0F) + 1) (d ! 0)
                 (f32 (real_of_int (uint (d ! 1)) / 127)), c2)
            else if status AND 0xF0 = 0x80 then
              (True, MidiMessage_noteOff (uint (status AND 0x0F) + 1) (d ! 0)
                 (f32 (real_of_int (uint (d ! 1)) / 127)), c2)
            else if status AND 0xF0 = 0xB0 then
              (True, MidiMessage_controllerEvent (uint (status AND 0x0F) + 1) (d ! 0) (d ! 1), c2)
            else (True, msg, c2))"

text \<open>The variables of the render loop, with the two function-local statics.\<close>

record Loop =
  totalSamplesProcessed :: int
  stdinClosed :: bool
  totalMidiEventsRead :: int
  blockNum :: int
  sustainNoteOn :: MidiMessage
  hasSustainNote :: bool
  cin :: Cin

definition noteEvent :: "MidiMessage \<Rightarrow> Loop \<Rightarrow> Loop" where
  \<comment> \<open>"Store Note On for sustaining"\<close>
  "noteEvent msg s =
     (if isNoteOn msg then s\<lparr>sustainNoteOn := msg, hasSustainNote := True\<rparr>
      else if isNoteOff msg then s\<lparr>hasSustainNote := False\<rparr>
      else s)"

function readEvents :: "MidiMessage \<Rightarrow> MidiBuffer \<Rightarrow> int \<Rightarrow> Loop \<Rightarrow> MidiBuffer \<times> int \<times> Loop" where
  \<comment> \<open>\<open>while (midiReader.readNextEvent(msg)) { ... }\<close>\<close>
  "readEvents msg midiBuffer eventsThisBlock s =
     (case readNextEvent msg (cin s) of
        (False, msg', c) \<Rightarrow> (midiBuffer, eventsThisBlock, s\<lparr>cin := c\<rparr>)
      | (True, msg', c) \<Rightarrow>
          readEvents msg' (midiBuffer @ [msg']) (wrap32 (eventsThisBlock + 1))
            (noteEvent msg'
              (s\<lparr>cin := c, totalMidiEventsRead := wrap32 (totalMidiEventsRead s + 1)\<rparr>)))"
  by pat_completeness auto
termination
proof (relation "measure (\<lambda>(msg, midiBuffer, eventsThisBlock, s). length (bytes (cin s)))")
  show "wf (measure (\<lambda>(msg, midiBuffer, eventsThisBlock, s). length (bytes (cin s))))"
    by simp
qed (auto simp: readNextEvent_def cin_read_def Let_def noteEvent_def
      split: if_splits option.splits prod.splits)

definition collectMidi :: "Loop \<Rightarrow> MidiBuffer \<times> Loop" where
  \<comment> \<open>the first part of an iteration: the MIDI buffer handed to \<open>processBlock\<close>\<close>
  "collectMidi s =
     (if \<not> stdinClosed s then
        let (midiBuffer, eventsThisBlock, s1) = readEvents MidiMessage_default [] 0 s
        in (midiBuffer, if eofbit (cin s1) then s1\<lparr>stdinClosed := True\<rparr> else s1)
      else if hasSustainNote s \<and> blockNum s < 100 then ([sustainNoteOn s], s)
      else ([], s))"

definition advanceCounters :: "CommandLineOptions \<Rightarrow> Loop \<Rightarrow> Loop" where
  \<comment> \<open>\<open>totalSamplesProcessed += options.blockSize; blockNum++;\<close>\<close>
  "advanceCounters opts s =
     s\<lparr>totalSamplesProcessed := wrap32 (totalSamplesProcessed s + blockSize opts),
       blockNum := wrap32 (blockNum s + 1)\<rparr>"

definition nextLoop :: "CommandLineOptions \<Rightarrow> Loop \<Rightarrow> Loop" where
  \<comment> \<open>the loop variables after one iteration\<close>
  "nextLoop opts s = advanceCounters opts (snd (collectMidi s))"

definition midiOfBlock :: "CommandLineOptions \<Rightarrow> Loop \<Rightarrow> nat \<Rightarrow> MidiBuffer" where
  \<comment> \<open>the MIDI buffer handed to \<open>processBlock\<close> in the iteration \<open>k\<close> iterations after \<open>s\<close>\<close>
  "midiOfBlock opts s k = fst (collectMidi ((nextLoop opts ^^ k) s))"

definition newAudioBuffer :: "int \<Rightarrow> int \<Rightarrow> AudioBuffer" where
  "newAudioBuffer channels samples =
     replicate (nat channels) (replicate (nat samples) (Finite 0))"

definition writeAudio :: "int \<Rightarrow> AudioBuffer \<Rightarrow> int \<Rightarrow> fval list" where
  \<comment> \<open>\<open>StdoutAudioWriter::write\<close>: the floats written, interleaved\<close>
  "writeAudio channels buffer numSamples =
     concat (map (\<lambda>i. map (\<lambda>ch. buffer ! ch ! i) [0..<nat channels]) [0..<nat numSamples])"

type_synonym RenderState = "Loop \<times> Voice \<times> fval list"

definition renderIteration :: "CommandLineOptions \<Rightarrow> (nat \<Rightarrow> Params) \<Rightarrow> RenderState \<Rightarrow> RenderState" where
  \<comment> \<open>the body of the render loop; the third component is everything written to
      standard output so far\<close>
  "renderIteration opts store st =
     (case st of (s, plugin, out) \<Rightarrow>
        let (midiBuffer, s1) = collectMidi s;
            outputBuffer = newAudioBuffer (numChannels opts) (blockSize opts);
            (plugin', outputBuffer') = processBlock store plugin midiBuffer outputBuffer
        in (advanceCounters opts s1, plugin',
            out @ writeAudio (numChannels opts) outputBuffer' (blockSize opts)))"

partial_function (option) renderLoop :: "CommandLineOptions \<Rightarrow> (nat \<Rightarrow> Params) \<Rightarrow> int \<Rightarrow> RenderState \<Rightarrow> RenderState option" where
  \<comment> \<open>\<open>while (totalSamplesProcessed < maxSamples) { ... }\<close>; \<open>None\<close>: the loop never ends\<close>
  "renderLoop opts store maxSamples st =
     (if totalSamplesProcessed (fst st) < maxSamples
      then renderLoop opts store maxSamples (renderIteration opts store st)
      else Some st)"

definition maxSamplesOf :: "CommandLineOptions \<Rightarrow> int" where
  "maxSamplesOf opts =
     (if duration opts > 0 then castInt (f64 (duration opts * real_of_int (optSampleRate opts)))
      else 2147483647)"

definition initialLoop :: "byte list \<Rightarrow> Loop" where
  "initialLoop input = \<lparr>totalSamplesProcessed = 0, stdinClosed = False, totalMidiEventsRead = 0,
     blockNum = 0, sustainNoteOn = MidiMessage_default, hasSustainNote = False,
     cin = \<lparr>bytes = input, eofbit = False\<rparr>\<rparr>"

definition render :: "CommandLineOptions \<Rightarrow> Params \<Rightarrow> byte list \<Rightarrow> RenderState option" where
  \<comment> \<open>\<open>OfflineRenderer::render\<close> on the bytes of standard input, with the Parameter Store
      as the \<open>--param\<close> options left it; nothing writes to the store during the run\<close>
  "render opts P input =
     renderLoop opts (\<lambda>i. P) (maxSamplesOf opts)
       (initialLoop input, prepareToPlay (real_of_int (optSampleRate opts)) Voice_init, [])"

definition samplesPerChannel :: "CommandLineOptions \<Rightarrow> RenderState \<Rightarrow> int" where
  \<comment> \<open>the number of frames on standard output\<close>
  "samplesPerChannel opts st = int (length (snd (snd st))) div numChannels opts"

definition sustaining :: "RenderState \<Rightarrow> bool" where
  \<comment> \<open>standard input is closed, a note is remembered for sustaining, and the voice holds
      a note at full envelope\<close>
  "sustaining st \<longleftrightarrow> stdinClosed (fst st) \<and> hasSustainNote (fst st)
     \<and> isNoteOn (sustainNoteOn (fst st)) \<and> noteOn (fst (snd st)) \<and> envelope (fst (snd st)) = 1"

declare readEvents.simps [simp del]


section \<open>Properties of the rounding\<close>

lemma two_powr_int: "(2::real) powr real_of_int j = 2 powi j"
  using powr_real_of_int' [of 2 j] by simp

lemma floor_log2_binade:
  assumes "2 powi k \<le> \<bar>x\<bar>" "\<bar>x\<bar> < 2 powi (k + 1)"
  shows "\<lfloor>log 2 \<bar>x::real\<bar>\<rfloor> = k"
proof -
  have "0 < (2::real) powi k" by simp
  with assms(1) have pos: "0 < \<bar>x\<bar>" by linarith
  have up: "2 powr (real_of_int k + 1) = (2::real) powi (k + 1)"
    using two_powr_int [of "k + 1"] by simp
  have "2 powr real_of_int k \<le> \<bar>x\<bar> \<and> \<bar>x\<bar> < 2 powr (real_of_int k + 1)"
    unfolding up two_powr_int using assms by simp
  with pos show ?thesis
    by (simp add: floor_log_eq_powr_iff)
qed

lemma rnd_binade:
  assumes "2 powi k \<le> \<bar>x\<bar>" "\<bar>x\<bar> < 2 powi (k + 1)"
  shows "rnd p x = of_int (rne (x / 2 powi (k + 1 - int p))) * 2 powi (k + 1 - int p)"
proof -
  have "0 < (2::real) powi k" by simp
  with assms(1) have "0 < \<bar>x\<bar>" by linarith
  then have "x \<noteq> 0" by auto
  then show ?thesis
    by (simp add: rnd_def Let_def floor_log2_binade [OF assms])
qed


lemma rne_of_int: "rne (of_int n) = n"
  by (simp add: rne_def)

lemma rne_lower: "of_int (rne x) \<ge> x - 1 / 2"
  unfolding rne_def Let_def by (simp; linarith)

lemma rne_upper: "of_int (rne x) \<le> x + 1 / 2"
  unfolding rne_def Let_def by (simp; linarith)

lemma rne_range: "\<lfloor>x\<rfloor> \<le> rne x \<and> rne x \<le> \<lfloor>x\<rfloor> + 1"
  by (simp add: rne_def Let_def)

lemma rne_mono:
  assumes "x \<le> y"
  shows "rne x \<le> rne y"
proof (cases "\<lfloor>x\<rfloor> = \<lfloor>y\<rfloor>")
  case True
  with assms show ?thesis
    by (auto simp: rne_def Let_def)
next
  case False
  with assms have "\<lfloor>x\<rfloor> + 1 \<le> \<lfloor>y\<rfloor>"
    using floor_mono [of x y] by linarith
  with rne_range [of x] rne_range [of y] show ?thesis
    by linarith
qed

lemma rne_minus: "rne (- x) = - rne x"
proof (cases "x = of_int \<lfloor>x\<rfloor>")
  case True
  then obtain n where "x = of_int n" ..
  then have "- x = of_int (- n)" by simp
  then show ?thesis
    using \<open>x = of_int n\<close> by (simp only: rne_of_int)
next
  case False
  then have fl: "\<lfloor>- x\<rfloor> = - \<lfloor>x\<rfloor> - 1"
    by (smt (verit) Ints_of_int ceiling_altdef ceiling_def floor_of_int)
  have lt: "of_int \<lfloor>x\<rfloor> < x"
    using False by (smt (verit) of_int_floor_le)
  show ?thesis
    unfolding rne_def Let_def fl using lt by auto
qed


lemma rnd_0: "rnd p 0 = 0"
  by (simp add: rnd_def)

lemma rnd_minus: "rnd p (- x) = - rnd p x"
  by (simp add: rnd_def Let_def rne_minus)

lemma rnd_nonneg:
  assumes "0 \<le> x"
  shows "0 \<le> rnd p x"
proof -
  have "0 \<le> x / 2 powi e" for e
    using assms by simp
  then have "rne 0 \<le> rne (x / 2 powi e)" for e
    by (rule rne_mono)
  then have "0 \<le> rne (x / 2 powi e)" for e
    using rne_of_int [of 0] by simp
  then show ?thesis
    by (simp add: rnd_def Let_def)
qed

lemma rnd_nonpos: "x \<le> 0 \<Longrightarrow> rnd p x \<le> 0"
  using rnd_nonneg [of "- x" p] by (simp add: rnd_minus)

lemma rnd_binade_upper:
  assumes "2 powi k \<le> x" "x < 2 powi (k + 1)"
  shows "rnd p x \<le> 2 powi (k + 1)"
proof -
  define e where "e = k + 1 - int p"
  have pos: "0 < (2::real) powi e" by simp
  have split: "(2::real) powi (k + 1) = 2 ^ p * 2 powi e"
    by (simp add: e_def power_int_diff)
  have "0 < (2::real) powi k" by simp
  with assms have "0 < x" by linarith
  with assms have ax: "2 powi k \<le> \<bar>x\<bar>" "\<bar>x\<bar> < 2 powi (k + 1)" by simp_all
  have "x / 2 powi e \<le> 2 ^ p"
    using assms(2) pos unfolding split by (simp add: field_simps)
  then have "x / 2 powi e \<le> of_int (2 ^ p)" by simp
  then have "rne (x / 2 powi e) \<le> rne (of_int (2 ^ p))" by (rule rne_mono)
  then have "rne (x / 2 powi e) \<le> 2 ^ p" by (simp only: rne_of_int)
  then have "real_of_int (rne (x / 2 powi e)) \<le> 2 ^ p"
    by (metis of_int_le_iff of_int_numeral of_int_power)
  then have "real_of_int (rne (x / 2 powi e)) * 2 powi e \<le> 2 ^ p * 2 powi e"
    using pos by (simp only: mult_le_cancel_right_pos)
  then show ?thesis
    unfolding rnd_binade [OF ax] split e_def .
qed

lemma rnd_binade_lower:
  assumes "0 < p" "2 powi k \<le> x" "x < 2 powi (k + 1)"
  shows "2 powi k \<le> rnd p x"
proof -
  define e where "e = k + 1 - int p"
  have pos: "0 < (2::real) powi e" by simp
  have "k = int (p - 1) + e" using assms(1) by (simp add: e_def)
  then have split: "(2::real) powi k = 2 ^ (p - 1) * 2 powi e"
    by (simp add: power_int_add)
  have "0 < (2::real) powi k" by simp
  with assms have "0 < x" by linarith
  with assms have ax: "2 powi k \<le> \<bar>x\<bar>" "\<bar>x\<bar> < 2 powi (k + 1)" by simp_all
  have "2 ^ (p - 1) \<le> x / 2 powi e"
    using assms(2) pos unfolding split by (simp add: field_simps)
  then have "of_int (2 ^ (p - 1)) \<le> x / 2 powi e" by simp
  then have "rne (of_int (2 ^ (p - 1))) \<le> rne (x / 2 powi e)" by (rule rne_mono)
  then have "2 ^ (p - 1) \<le> rne (x / 2 powi e)" by (simp only: rne_of_int)
  then have "2 ^ (p - 1) \<le> real_of_int (rne (x / 2 powi e))"
    by (metis of_int_le_iff of_int_numeral of_int_power)
  then have "2 ^ (p - 1) * 2 powi e \<le> real_of_int (rne (x / 2 powi e)) * 2 powi e"
    using pos by (simp only: mult_le_cancel_right_pos)
  then show ?thesis
    unfolding rnd_binade [OF ax] split e_def .
qed

lemma binade_exists:
  assumes "0 < (x::real)"
  obtains k where "2 powi k \<le> x" "x < 2 powi (k + 1)"
proof -
  define k where "k = \<lfloor>log 2 x\<rfloor>"
  have "2 powr real_of_int k \<le> x \<and> x < 2 powr (real_of_int k + 1)"
    using assms floor_log_eq_powr_iff [of x 2 k] by (simp add: k_def)
  moreover have "2 powr (real_of_int k + 1) = (2::real) powi (k + 1)"
    using two_powr_int [of "k + 1"] by simp
  ultimately have "2 powi k \<le> x" "x < 2 powi (k + 1)"
    by (simp_all add: two_powr_int)
  then show thesis ..
qed

lemma rnd_mono_pos:
  assumes "0 < p" "0 < x" "x \<le> y"
  shows "rnd p x \<le> rnd p y"
proof -
  obtain k where k: "2 powi k \<le> x" "x < 2 powi (k + 1)"
    using binade_exists [OF assms(2)] .
  from assms have "0 < y" by linarith
  then obtain j where j: "2 powi j \<le> y" "y < 2 powi (j + 1)"
    using binade_exists by blast
  have "(2::real) powi k < 2 powi (j + 1)"
    using k(1) j(2) assms(3) by linarith
  then have kj: "k \<le> j"
    using power_int_increasing [of "j + 1" k "2::real"] by (cases "k \<le> j") simp_all
  have ax: "2 powi k \<le> \<bar>x\<bar>" "\<bar>x\<bar> < 2 powi (k + 1)"
    and ay: "2 powi j \<le> \<bar>y\<bar>" "\<bar>y\<bar> < 2 powi (j + 1)"
    using k j assms(2) \<open>0 < y\<close> by simp_all
  show ?thesis
  proof (cases "k = j")
    case True
    have pos: "0 < (2::real) powi (k + 1 - int p)" by simp
    have "x / 2 powi (k + 1 - int p) \<le> y / 2 powi (k + 1 - int p)"
      using assms(3) pos by (simp add: divide_right_mono)
    then have "rne (x / 2 powi (k + 1 - int p)) \<le> rne (y / 2 powi (k + 1 - int p))"
      by (rule rne_mono)
    then have "real_of_int (rne (x / 2 powi (k + 1 - int p))) * 2 powi (k + 1 - int p)
        \<le> real_of_int (rne (y / 2 powi (k + 1 - int p))) * 2 powi (k + 1 - int p)"
      using pos by (simp only: mult_le_cancel_right_pos of_int_le_iff)
    then show ?thesis
      unfolding rnd_binade [OF ax] rnd_binade [OF ay [unfolded True [symmetric]]] .
  next
    case False
    with kj have "k + 1 \<le> j" by simp
    then have "(2::real) powi (k + 1) \<le> 2 powi j"
      by (simp add: power_int_increasing)
    moreover have "rnd p x \<le> 2 powi (k + 1)"
      using k by (rule rnd_binade_upper)
    moreover have "2 powi j \<le> rnd p y"
      using assms(1) j by (rule rnd_binade_lower)
    ultimately show ?thesis by linarith
  qed
qed

lemma rnd_mono:
  assumes "0 < p" "x \<le> y"
  shows "rnd p x \<le> rnd p y"
proof -
  consider "0 < x" | "y < 0" | "x \<le> 0" "0 \<le> y" by linarith
  then show ?thesis
  proof cases
    case 1
    then show ?thesis using assms by (simp add: rnd_mono_pos)
  next
    case 2
    then have "rnd p (- y) \<le> rnd p (- x)"
      using assms by (intro rnd_mono_pos) simp_all
    then show ?thesis by (simp add: rnd_minus)
  next
    case 3
    then show ?thesis
      using rnd_nonpos [of x p] rnd_nonneg [of y p] by linarith
  qed
qed

lemma rnd_pow2:
  assumes "0 < p"
  shows "rnd p (2 powi k) = 2 powi k"
proof -
  have lo: "2 powi k \<le> (2::real) powi k" by simp
  have hi: "(2::real) powi k < 2 powi (k + 1)"
    by (rule power_int_strict_increasing) simp_all
  have "2 powi k \<le> rnd p (2 powi k)"
    using assms lo hi by (rule rnd_binade_lower)
  moreover have "rnd p (2 powi k) \<le> 2 powi k"
  proof -
    define e where "e = k + 1 - int p"
    have "k = int (p - 1) + e" using assms by (simp add: e_def)
    then have split: "(2::real) powi k = 2 ^ (p - 1) * 2 powi e"
      by (simp add: power_int_add)
    have "0 < (2::real) powi k" by simp
    then have ax: "2 powi k \<le> \<bar>(2::real) powi k\<bar>" "\<bar>(2::real) powi k\<bar> < 2 powi (k + 1)"
      using hi by auto
    have "(2::real) powi k / 2 powi e = of_int (2 ^ (p - 1))"
      unfolding split by simp
    then have "rne ((2::real) powi k / 2 powi e) = 2 ^ (p - 1)"
      by (simp only: rne_of_int)
    then have "rnd p (2 powi k) = 2 ^ (p - 1) * 2 powi e"
      unfolding rnd_binade [OF ax] e_def by simp
    then show ?thesis by (simp add: split)
  qed
  ultimately show ?thesis by linarith
qed

lemma rnd_one: "0 < p \<Longrightarrow> rnd p 1 = 1"
  using rnd_pow2 [of p 0] by simp

lemma rnd_at: "2 powi k \<le> \<bar>x\<bar> \<Longrightarrow> \<bar>x\<bar> < 2 powi (k + 1) \<Longrightarrow> rnd p x = rnd_at p k x"
  by (simp add: rnd_binade rnd_at_def)

lemma f32_at: "2 powi k \<le> \<bar>x\<bar> \<Longrightarrow> \<bar>x\<bar> < 2 powi (k + 1) \<Longrightarrow> f32 x = rnd_at 24 k x"
  by (simp add: f32_def rnd_at)

lemma f32_0: "f32 0 = 0"
  by (simp add: f32_def rnd_0)

lemma f32_1: "f32 1 = 1"
  by (simp add: f32_def rnd_one)

lemma f32_minus: "f32 (- x) = - f32 x"
  by (simp add: f32_def rnd_minus)

lemma f32_mono: "x \<le> y \<Longrightarrow> f32 x \<le> f32 y"
  by (simp add: f32_def rnd_mono)

lemma f32_pow2: "f32 (2 powi k) = 2 powi k"
  by (simp add: f32_def rnd_pow2)

lemma f32_nonneg: "0 \<le> x \<Longrightarrow> 0 \<le> f32 x"
  by (simp add: f32_def rnd_nonneg)

lemma f32_nonpos: "x \<le> 0 \<Longrightarrow> f32 x \<le> 0"
  by (simp add: f32_def rnd_nonpos)

lemma f32_le_1: "x \<le> 1 \<Longrightarrow> f32 x \<le> 1"
  using f32_mono [of x 1] by (simp add: f32_1)

lemma f32_ge_1: "1 \<le> x \<Longrightarrow> 1 \<le> f32 x"
  using f32_mono [of 1 x] by (simp add: f32_1)

lemma f32_ge_m1: "- 1 \<le> x \<Longrightarrow> - 1 \<le> f32 x"
  using f32_mono [of "- 1" x] by (simp add: f32_1 f32_minus)

lemma f32_2: "f32 2 = 2"
  using f32_pow2 [of 1] by simp



section \<open>The envelope\<close>

lemma f32_cascade:
  assumes "1 / 128 \<le> x" "x < 2"
  shows "f32 x = (if x < 1 / 64 then rnd_at 24 (-7) x else if x < 1 / 32 then rnd_at 24 (-6) x
     else if x < 1 / 16 then rnd_at 24 (-5) x else if x < 1 / 8 then rnd_at 24 (-4) x
     else if x < 1 / 4 then rnd_at 24 (-3) x else if x < 1 / 2 then rnd_at 24 (-2) x
     else if x < 1 then rnd_at 24 (-1) x else rnd_at 24 0 x)"
  using assms by (auto intro!: f32_at simp: power_int_minus)

lemma attackRate: "f32 (1 / 100) = 5368709 / 536870912"
  by (subst f32_cascade) (simp_all add: rnd_at_def rne_def power_int_minus)

lemma releaseRate: "f32 (1 / 50) = 5368709 / 268435456"
  by (subst f32_cascade) (simp_all add: rnd_at_def rne_def power_int_minus)

lemma attack_eval:
  assumes "0 \<le> e" "e < 1"
  shows "envelopeStep True e = min (let x = e + 5368709 / 536870912 in
     (if x < 1 / 64 then rnd_at 24 (-7) x else if x < 1 / 32 then rnd_at 24 (-6) x
     else if x < 1 / 16 then rnd_at 24 (-5) x else if x < 1 / 8 then rnd_at 24 (-4) x
     else if x < 1 / 4 then rnd_at 24 (-3) x else if x < 1 / 2 then rnd_at 24 (-2) x
     else if x < 1 then rnd_at 24 (-1) x else rnd_at 24 0 x)) 1"
  unfolding envelopeStep_def attackRate Let_def
  by (subst f32_cascade) (use assms in simp_all)

lemma release_eval:
  assumes "5 / 128 \<le> e" "e \<le> 1"
  shows "envelopeStep False e = max (let x = e - 5368709 / 268435456 in
     (if x < 1 / 64 then rnd_at 24 (-7) x else if x < 1 / 32 then rnd_at 24 (-6) x
     else if x < 1 / 16 then rnd_at 24 (-5) x else if x < 1 / 8 then rnd_at 24 (-4) x
     else if x < 1 / 4 then rnd_at 24 (-3) x else if x < 1 / 2 then rnd_at 24 (-2) x
     else if x < 1 then rnd_at 24 (-1) x else rnd_at 24 0 x)) 0"
  unfolding envelopeStep_def releaseRate Let_def
  by (subst f32_cascade) (use assms in simp_all)

lemma attack_100: "(envelopeStep True ^^ 100) 0 = 16777205 / 16777216"
  by (simp add: numeral_eq_Suc attack_eval rnd_at_def rne_def power_int_minus)

lemma funpow_Suc_numeral: "(f ^^ Suc n) x = f ((f ^^ n) x)"
  by simp

lemma attack_101: "(envelopeStep True ^^ 101) 0 = 1"
proof -
  have "(envelopeStep True ^^ Suc 100) 0 = 1"
    unfolding funpow_Suc_numeral attack_100
    by (simp add: attack_eval rnd_at_def rne_def power_int_minus)
  then show ?thesis by simp
qed

lemma release_48: "(envelopeStep False ^^ 48) 1 = 5368761 / 134217728"
  by (simp add: numeral_eq_Suc release_eval rnd_at_def rne_def power_int_minus)

lemma release_49: "(envelopeStep False ^^ 49) 1 = 5368813 / 268435456"
proof -
  have "(envelopeStep False ^^ Suc 48) 1 = 5368813 / 268435456"
    unfolding funpow_Suc_numeral release_48
    by (simp add: release_eval rnd_at_def rne_def power_int_minus)
  then show ?thesis by simp
qed

lemma release_50: "(envelopeStep False ^^ 50) 1 = 13 / 33554432"
proof -
  have "f32 (13 / 33554432) = 13 / 33554432"
    by (subst f32_at [where k = "- 22"]) (simp_all add: rnd_at_def rne_def power_int_minus)
  then have "(envelopeStep False ^^ Suc 49) 1 = 13 / 33554432"
    unfolding funpow_Suc_numeral release_49
    by (simp add: envelopeStep_def releaseRate)
  then show ?thesis by simp
qed

lemma attackRate_nonneg: "0 \<le> f32 (1 / 100)"
  by (rule f32_nonneg) simp

lemma releaseRate_nonneg: "0 \<le> f32 (1 / 50)"
  by (rule f32_nonneg) simp

lemma envelopeStep_range:
  assumes "0 \<le> e" "e \<le> 1"
  shows "0 \<le> envelopeStep on e \<and> envelopeStep on e \<le> 1"
proof (cases on)
  case True
  have "0 \<le> f32 (e + f32 (1 / 100))"
    using assms(1) attackRate_nonneg by (intro f32_nonneg) linarith
  with True show ?thesis by (simp add: envelopeStep_def)
next
  case False
  have "f32 (e - f32 (1 / 50)) \<le> 1"
    using assms(2) releaseRate_nonneg by (intro f32_le_1) linarith
  with False show ?thesis by (simp add: envelopeStep_def)
qed

lemma envelope_foldl_range:
  "0 \<le> e \<Longrightarrow> e \<le> 1 \<Longrightarrow>
    0 \<le> foldl (\<lambda>e on. envelopeStep on e) e ons \<and> foldl (\<lambda>e on. envelopeStep on e) e ons \<le> 1"
proof (induction ons arbitrary: e)
  case Nil
  then show ?case by simp
next
  case (Cons on ons)
  from envelopeStep_range [OF Cons.prems, of on] Cons.IH [of "envelopeStep on e"]
  show ?case by simp
qed

lemma attack_full: "envelopeStep True 1 = 1"
proof -
  have "1 \<le> f32 (1 + f32 (1 / 100))"
    using attackRate_nonneg by (intro f32_ge_1) linarith
  then show ?thesis by (simp add: envelopeStep_def)
qed

lemma release_silent: "envelopeStep False 0 = 0"
proof -
  have "f32 (0 - f32 (1 / 50)) \<le> 0"
    using releaseRate_nonneg by (intro f32_nonpos) linarith
  then show ?thesis by (simp add: envelopeStep_def)
qed

lemma release_51: "(envelopeStep False ^^ 51) 1 = 0"
proof -
  have "f32 (13 / 33554432 - f32 (1 / 50)) \<le> 0"
    unfolding releaseRate by (intro f32_nonpos) simp
  then have "(envelopeStep False ^^ Suc 50) 1 = 0"
    unfolding funpow_Suc_numeral release_50 by (simp add: envelopeStep_def)
  then show ?thesis by simp
qed

lemma funpow_fixed: "f x = x \<Longrightarrow> (f ^^ n) x = x"
  by (induction n) simp_all

lemma funpow_reaches:
  assumes "(f ^^ k) x = y" "f y = y" "k \<le> n"
  shows "(f ^^ n) x = y"
proof -
  from assms(3) obtain m where "n = m + k"
    by (metis le_add_diff_inverse2)
  then show ?thesis
    using assms(1,2) by (simp add: funpow_add funpow_fixed)
qed

text \<open>
  Claim C8, as amended. The envelope stays in \<open>[0, 1]\<close> for every number and order of
  per-sample updates that start in \<open>[0, 1]\<close>. In float arithmetic the attack rate
  \<open>0.01f\<close> lies below \<open>1 / 100\<close> and the release rate \<open>0.02f\<close> below \<open>1 / 50\<close>, so
  the envelope is exactly 1 after at least 101 consecutive updates with the note on,
  starting from 0, and exactly 0 after at least 51 consecutive updates with the note
  off, starting from 1.
\<close>

theorem envelope_clamped_and_saturates:
  "(0 \<le> e \<and> e \<le> 1 \<longrightarrow>
      0 \<le> foldl (\<lambda>e on. envelopeStep on e) e ons \<and> foldl (\<lambda>e on. envelopeStep on e) e ons \<le> 1)
   \<and> (101 \<le> n \<longrightarrow> (envelopeStep True ^^ n) 0 = 1)
   \<and> (51 \<le> m \<longrightarrow> (envelopeStep False ^^ m) 1 = 0)"
  using envelope_foldl_range [of e ons]
    funpow_reaches [OF attack_101 attack_full, of n]
    funpow_reaches [OF release_51 release_silent, of m]
  by blast

theorem envelope_clamped_and_saturates_witness:
  "0 \<le> (1 / 2 :: real) \<and> (1 / 2 :: real) \<le> 1
   \<and> 0 \<le> foldl (\<lambda>e on. envelopeStep on e) (1 / 2) [True, False, False]
   \<and> foldl (\<lambda>e on. envelopeStep on e) (1 / 2) [True, False, False] \<le> 1
   \<and> (101 :: nat) \<le> 101 \<and> (envelopeStep True ^^ 101) 0 = 1
   \<and> (51 :: nat) \<le> 60 \<and> (envelopeStep False ^^ 60) 1 = 0"
  using envelope_clamped_and_saturates [of "1 / 2" "[True, False, False]" 101 60]
  by simp

text \<open>
  Claim C8 as stated fails at the two boundaries it names: after exactly 100 updates with
  the note on the envelope is \<open>16777205 / 16777216\<close>, not 1, and after exactly 50
  updates with the note off it is \<open>13 / 33554432\<close>, not 0.
\<close>

theorem envelope_not_saturated_at_100_and_50:
  "(envelopeStep True ^^ 100) 0 \<noteq> 1 \<and> (envelopeStep False ^^ 50) 1 \<noteq> 0"
  by (simp only: attack_100 release_50) simp

section \<open>The waveform generator and the sample loop\<close>

lemma f32_pos:
  assumes "0 < x"
  shows "0 < f32 x"
proof -
  obtain k where k: "2 powi k \<le> x" "x < 2 powi (k + 1)"
    using binade_exists [OF assms] .
  have "2 powi k \<le> rnd 24 x"
    using k by (intro rnd_binade_lower) simp_all
  moreover have "0 < (2::real) powi k" by simp
  ultimately show ?thesis
    unfolding f32_def by linarith
qed

lemma f32_abs_le_1: "\<bar>x\<bar> \<le> 1 \<Longrightarrow> \<bar>f32 x\<bar> \<le> 1"
  using f32_le_1 [of x] f32_ge_m1 [of x] by (simp add: abs_le_iff)

lemma f32_quarter: "f32 (1 / 4) = 1 / 4"
  using f32_pow2 [of "- 2"] by (simp add: power_int_minus)

lemma f32_half: "f32 (1 / 2) = 1 / 2"
  using f32_pow2 [of "- 1"] by (simp add: power_int_minus)

lemma f32_three_quarters: "f32 (3 / 4) = 3 / 4"
  by (subst f32_at [where k = "- 1"]) (simp_all add: rnd_at_def rne_def power_int_minus)

lemma f32_44100: "f32 44100 = 44100"
  by (subst f32_at [where k = 15]) (simp_all add: rnd_at_def rne_def power_int_minus)

lemmas f32_values = f32_0 f32_1 f32_2 f32_minus f32_quarter f32_half f32_three_quarters f32_44100

lemma quarter_twoPi: "f32 (twoPi / 4) = 13176795 / 8388608"
  by (subst f32_at [where k = 0]) (simp_all add: twoPi_def rnd_at_def rne_def power_int_minus)



text \<open>
  Claim C4, as amended. The switch over the waveform selector has no default case and
  the output starts at \<open>0.0f\<close>: for every phase and every selector outside 0 to 3 the
  generated value is 0 (silence), not the sine. The fallback to Sine is the one for a
  missing waveform parameter (a null pointer), which selects index 0.
\<close>

theorem selector_out_of_range_is_silent:
  "(waveform < 0 \<or> 3 < waveform \<longrightarrow> waveformSwitch waveform ph = Finite 0)
   \<and> (waveformParam P = None \<longrightarrow>
        waveformSwitch (getIndex P) ph = fsin (fmul ph (Finite twoPi)))"
  by (auto simp: waveformSwitch_def getIndex_def)

theorem selector_out_of_range_is_silent_witness:
  "((4::int) < 0 \<or> 3 < (4::int)) \<and> waveformSwitch 4 (Finite (1 / 4)) = Finite 0
   \<and> waveformParam \<lparr>frequencyParam = Some 440, gainParam = Some 1, waveformParam = None\<rparr> = None
   \<and> waveformSwitch (getIndex \<lparr>frequencyParam = Some 440, gainParam = Some 1, waveformParam = None\<rparr>)
        (Finite (1 / 4))
       = fsin (fmul (Finite (1 / 4)) (Finite twoPi))"
  using selector_out_of_range_is_silent [of 4 "Finite (1 / 4)"
      "\<lparr>frequencyParam = Some 440, gainParam = Some 1, waveformParam = None\<rparr>"]
  by simp

text \<open>
  Claim C4 as stated fails: at phase \<open>1 / 4\<close> the selector 4 yields 0, which is neither
  what the Sine case of the code yields there nor \<open>sin (2 * pi * phase) = 1\<close>.
\<close>

theorem selector_4_is_not_sine:
  "waveformSwitch 4 (Finite (1 / 4)) \<noteq> waveformSwitch 0 (Finite (1 / 4))
   \<and> waveformSwitch 4 (Finite (1 / 4)) \<noteq> Finite (sin (2 * pi * (1 / 4)))"
proof -
  have "0 < sin (13176795 / 8388608 :: real)"
    by (rule sin_gt_zero_02) simp_all
  then have "0 < f32 (sin (13176795 / 8388608))"
    by (rule f32_pos)
  then have "waveformSwitch 0 (Finite (1 / 4)) \<noteq> Finite 0"
    by (simp add: waveformSwitch_def quarter_twoPi)
  moreover have "waveformSwitch 4 (Finite (1 / 4)) = Finite 0"
    by (simp add: waveformSwitch_def)
  moreover have "sin (2 * pi * (1 / 4)) = 1"
    by simp
  ultimately show ?thesis by simp
qed

lemma renderSample_voice_update:
  "fst (renderSample P gain v)
     = v\<lparr>envelope := envelopeStep (noteOn v) (envelope v), phase := advancePhase v\<rparr>"
  by (simp add: renderSample_def Let_def)

lemma renderSamples_Suc_voice:
  "fst (renderSamples store gain i (Suc n) v)
     = fst (renderSamples store gain (Suc i) n (fst (renderSample (store i) gain v)))"
  by (simp add: split_beta)

lemma renderSamples_Suc_samples:
  "snd (renderSamples store gain i (Suc n) v)
     = snd (renderSample (store i) gain v)
       # snd (renderSamples store gain (Suc i) n (fst (renderSample (store i) gain v)))"
  by (simp add: split_beta)

lemma processBlock_voice_eq:
  "fst (processBlock store v midi buffer)
     = fst (renderSamples store (getGain (store 0)) 0 (getNumSamples buffer)
         (foldl handleMidi (updateParameters (store 0) v) midi))"
  by (simp add: processBlock_def Let_def split_beta)

lemma advancePhase_finite:
  "r \<noteq> 0 \<Longrightarrow>
    advancePhase \<lparr>phase = Finite p, currentFrequency = f, sampleRate = r, envelope = e, noteOn = b\<rparr>
      = (if 1 < f32 (p + f32 (f / r)) then Finite (f32 (f32 (p + f32 (f / r)) - 1))
         else Finite (f32 (p + f32 (f / r))))"
  by (simp add: advancePhase_def fdiv_def Let_def)

lemma renderSample_sample:
  "snd (renderSample P gain v)
     = fmul (waveformSwitch (getIndex P) (advancePhase v))
         (Finite (f32 (envelopeStep (noteOn v) (envelope v) * gain)))"
  by (simp add: renderSample_def Let_def)

lemma processBlock_stereo:
  "snd (processBlock store v midi (newAudioBuffer 2 n))
     = [snd (renderSamples store (getGain (store 0)) 0 (nat n)
              (foldl handleMidi (updateParameters (store 0) v) midi)),
        snd (renderSamples store (getGain (store 0)) 0 (nat n)
              (foldl handleMidi (updateParameters (store 0) v) midi))]"
  by (simp add: processBlock_def newAudioBuffer_def getNumSamples_def
      getTotalNumOutputChannels_def numeral_2_eq_2 Let_def split_beta)

lemma processBlockReadOnce_stereo:
  "snd (processBlockReadOnce store v midi (newAudioBuffer 2 n))
     = [snd (renderSamplesReadOnce (getIndex (store 0)) (getGain (store 0)) (nat n)
              (foldl handleMidi (updateParameters (store 0) v) midi)),
        snd (renderSamplesReadOnce (getIndex (store 0)) (getGain (store 0)) (nat n)
              (foldl handleMidi (updateParameters (store 0) v) midi))]"
  by (simp add: processBlockReadOnce_def newAudioBuffer_def getNumSamples_def
      getTotalNumOutputChannels_def numeral_2_eq_2 Let_def split_beta)

lemma getNumSamples_newAudioBuffer:
  "0 < channels \<Longrightarrow> getNumSamples (newAudioBuffer channels samples) = nat samples"
  by (cases "nat channels") (simp_all add: getNumSamples_def newAudioBuffer_def)

lemma zero_sample_rate_is_not_a_number:
  "snd (renderSample defaultParams gain (updateParameters defaultParams (prepareToPlay 0 Voice_init)))
     = NaN"
  by (simp add: renderSample_sample advancePhase_def fdiv_def updateParameters_def
      prepareToPlay_def Voice_init_def defaultParams_def getIndex_def waveformSwitch_def
      infTimes_def twoPi_def f32_0 Let_def)

text \<open>
  Claim C7 on the code: with the Parameter Store's frequency at 11025 Hz and the sample
  rate 44100 Hz the phase increment is exactly \<open>1 / 4\<close>; the fourth sample of the first
  block brings the phase to exactly 1, the test \<open>phase > 1.0f\<close> does not fire, and the
  phase stays at 1, outside \<open>[0, 1)\<close>.
\<close>

theorem phase_reaches_one:
  "phase (fst (processBlock (\<lambda>i. defaultParams\<lparr>frequencyParam := Some 11025\<rparr>)
      (prepareToPlay 44100 Voice_init) [] (newAudioBuffer 2 4))) = Finite 1"
proof -
  have n: "getNumSamples (newAudioBuffer 2 4) = Suc (Suc (Suc (Suc 0)))"
    by (simp add: getNumSamples_newAudioBuffer)
  show ?thesis
    unfolding processBlock_voice_eq n renderSamples_Suc_voice renderSample_voice_update
    by (simp add: updateParameters_def prepareToPlay_def Voice_init_def defaultParams_def
        advancePhase_finite f32_values)
qed

section \<open>The render loop\<close>

lemma noteEvent_keeps:
  "totalSamplesProcessed (noteEvent msg s) = totalSamplesProcessed s"
  "blockNum (noteEvent msg s) = blockNum s"
  "stdinClosed (noteEvent msg s) = stdinClosed s"
  "cin (noteEvent msg s) = cin s"
  by (simp_all add: noteEvent_def)

lemma readEvents_keeps:
  "totalSamplesProcessed (snd (snd (readEvents msg midiBuffer eventsThisBlock s))) = totalSamplesProcessed s
   \<and> blockNum (snd (snd (readEvents msg midiBuffer eventsThisBlock s))) = blockNum s
   \<and> stdinClosed (snd (snd (readEvents msg midiBuffer eventsThisBlock s))) = stdinClosed s"
proof (induction msg midiBuffer eventsThisBlock s rule: readEvents.induct)
  case (1 msg midiBuffer eventsThisBlock s)
  obtain ok msg' c where r: "readNextEvent msg (cin s) = (ok, msg', c)"
    by (metis prod_cases3)
  show ?case
  proof (cases ok)
    case True
    with r "1.IH" [of ok "(msg', c)" msg' c] show ?thesis
      by (subst (1 2 3) readEvents.simps) (simp add: noteEvent_keeps)
  next
    case False
    with r show ?thesis
      by (subst (1 2 3) readEvents.simps) simp
  qed
qed

lemma collectMidi_keeps:
  "totalSamplesProcessed (snd (collectMidi s)) = totalSamplesProcessed s"
  "blockNum (snd (collectMidi s)) = blockNum s"
  using readEvents_keeps [of MidiMessage_default "[]" 0 s]
  by (auto simp: collectMidi_def Let_def split_beta)

lemma nextLoop_total:
  "totalSamplesProcessed (nextLoop opts s) = wrap32 (totalSamplesProcessed s + blockSize opts)"
  by (simp add: nextLoop_def advanceCounters_def collectMidi_keeps)

lemma nextLoop_blockNum:
  "blockNum (nextLoop opts s) = wrap32 (blockNum s + 1)"
  by (simp add: nextLoop_def advanceCounters_def collectMidi_keeps)

lemma renderIteration_loop: "fst (renderIteration opts store st) = nextLoop opts (fst st)"
  by (cases st) (simp add: renderIteration_def nextLoop_def Let_def split_beta)

lemma wrap32_id: "- (2 ^ 31) \<le> x \<Longrightarrow> x < 2 ^ 31 \<Longrightarrow> wrap32 x = x"
  by (simp add: wrap32_def)

lemma wrap32_range: "- (2 ^ 31) \<le> wrap32 x \<and> wrap32 x < 2 ^ 31"
proof -
  have "0 \<le> (x + 2147483648) mod 4294967296" "(x + 2147483648) mod 4294967296 < 4294967296"
    by simp_all
  then show ?thesis
    by (simp add: wrap32_def)
qed

lemma wrap32_even: "even x \<Longrightarrow> even (wrap32 x)"
  by (simp add: wrap32_def dvd_mod_iff)









lemma renderLoop_never_ends:
  assumes "even (blockSize opts)" "even (totalSamplesProcessed (fst st))"
    "totalSamplesProcessed (fst st) < 2 ^ 31"
  shows "renderLoop opts store 2147483647 st = None"
proof -
  let ?inv = "\<lambda>(opts :: CommandLineOptions) (store :: nat \<Rightarrow> Params) (m :: int) (st :: RenderState)
      (y :: RenderState).
    \<not> (m = 2147483647 \<and> even (blockSize opts) \<and> even (totalSamplesProcessed (fst st))
       \<and> totalSamplesProcessed (fst st) < 2 ^ 31)"
  have "?inv opts store m st y" if run: "renderLoop opts store m st = Some y" for m y
  proof (rule renderLoop.raw_induct [where P = ?inv, OF _ run])
    fix loop opts store maxSamples st y
    assume IH: "\<And>a b c d y. loop a b c d = Some y \<Longrightarrow> ?inv a b c d y"
      and step: "(if totalSamplesProcessed (fst st) < maxSamples
          then loop opts store maxSamples (renderIteration opts store st) else Some st) = Some y"
    show "?inv opts store maxSamples st y"
    proof
      assume inv: "maxSamples = 2147483647 \<and> even (blockSize opts)
        \<and> even (totalSamplesProcessed (fst st)) \<and> totalSamplesProcessed (fst st) < 2 ^ 31"
      then have "totalSamplesProcessed (fst st) \<noteq> 2147483647"
        by auto
      with inv have "totalSamplesProcessed (fst st) < maxSamples"
        by simp
      with step have "loop opts store maxSamples (renderIteration opts store st) = Some y"
        by simp
      then have "?inv opts store maxSamples (renderIteration opts store st) y"
        by (rule IH)
      moreover have "even (totalSamplesProcessed (fst (renderIteration opts store st)))"
        using inv by (simp add: renderIteration_loop nextLoop_total wrap32_even)
      moreover have "totalSamplesProcessed (fst (renderIteration opts store st)) < 2 ^ 31"
        using wrap32_range by (simp add: renderIteration_loop nextLoop_total)
      ultimately show False
        using inv by simp
    qed
  qed
  with assms show ?thesis
    by (cases "renderLoop opts store 2147483647 st") auto
qed

lemma f32_127: "f32 127 = 127"
  by (subst f32_at [where k = 6]) (simp_all add: rnd_at_def rne_def)

lemma velocity_full: "floatValueToMidiByte 1 = 127"
  by (simp add: floatValueToMidiByte_def validVelocity_def jlimit_def f32_127 rne_def)

lemma readNextEvent_A4:
  "readNextEvent msg \<lparr>bytes = 0x90 # 69 # 127 # rest, eofbit = False\<rparr>
     = (True, [0x90, 69, 127], \<lparr>bytes = rest, eofbit = False\<rparr>)"
  by (simp add: readNextEvent_def cin_read_def dataBytesOf_def MidiMessage_noteOn_def
      initialByte_def jlimit_def f32_1 velocity_full)

lemma readNextEvent_eof:
  "readNextEvent msg \<lparr>bytes = [], eofbit = False\<rparr> = (False, msg, \<lparr>bytes = [], eofbit = True\<rparr>)"
  by (simp add: readNextEvent_def cin_read_def)

lemma readNextEvent_unsupported:
  "dataBytesOf b = None \<Longrightarrow>
    readNextEvent msg \<lparr>bytes = b # rest, eofbit = False\<rparr>
      = (False, msg, \<lparr>bytes = rest, eofbit = False\<rparr>)"
  by (simp add: readNextEvent_def cin_read_def)

lemma readNextEvent_one_data_byte:
  "status AND 0xF0 = 0xC0 \<or> status AND 0xF0 = 0xD0 \<Longrightarrow>
    readNextEvent msg \<lparr>bytes = status # d # rest, eofbit = False\<rparr>
      = (True, msg, \<lparr>bytes = rest, eofbit = False\<rparr>)"
  by (auto simp: readNextEvent_def cin_read_def dataBytesOf_def)

lemma A4_is_noteOn: "isNoteOn [0x90, 69, 127]" "\<not> isNoteOff [0x90, 69, 127]"
  by simp_all

lemma collectMidi_A4_program_change:
  "fst (collectMidi (initialLoop [0x90, 69, 127, 0xC0, 5])) = [[0x90, 69, 127], [0x90, 69, 127]]"
  by (simp add: collectMidi_def initialLoop_def readEvents.simps readNextEvent_A4
      readNextEvent_one_data_byte readNextEvent_eof noteEvent_def)

lemma collectMidi_A4:
  "collectMidi (initialLoop [0x90, 69, 127])
    = ([[0x90, 69, 127]],
       \<lparr>totalSamplesProcessed = 0, stdinClosed = True, totalMidiEventsRead = 1, blockNum = 0,
         sustainNoteOn = [0x90, 69, 127], hasSustainNote = True,
         cin = \<lparr>bytes = [], eofbit = True\<rparr>\<rparr>)"
  by (simp add: collectMidi_def initialLoop_def readEvents.simps readNextEvent_A4
      readNextEvent_eof noteEvent_def wrap32_def)

lemma nextLoop_unsupported:
  assumes "dataBytesOf g = None"
  shows "nextLoop opts \<lparr>totalSamplesProcessed = t, stdinClosed = False, totalMidiEventsRead = e,
        blockNum = b, sustainNoteOn = m, hasSustainNote = h,
        cin = \<lparr>bytes = g # rest, eofbit = False\<rparr>\<rparr>
    = \<lparr>totalSamplesProcessed = wrap32 (t + blockSize opts), stdinClosed = False,
        totalMidiEventsRead = e, blockNum = wrap32 (b + 1), sustainNoteOn = m, hasSustainNote = h,
        cin = \<lparr>bytes = rest, eofbit = False\<rparr>\<rparr>"
  using assms
  by (simp add: nextLoop_def collectMidi_def advanceCounters_def readEvents.simps
      readNextEvent_unsupported)

lemma nextLoop_unsupported_run:
  assumes "dataBytesOf g = None"
  shows "0 \<le> t \<Longrightarrow> t + 512 * int k < 2 ^ 31 \<Longrightarrow> 0 \<le> b \<Longrightarrow> b + int k < 2 ^ 31 \<Longrightarrow>
    (nextLoop defaultOptions ^^ k) \<lparr>totalSamplesProcessed = t, stdinClosed = False,
        totalMidiEventsRead = e, blockNum = b, sustainNoteOn = m, hasSustainNote = h,
        cin = \<lparr>bytes = replicate k g @ rest, eofbit = False\<rparr>\<rparr>
    = \<lparr>totalSamplesProcessed = t + 512 * int k, stdinClosed = False,
        totalMidiEventsRead = e, blockNum = b + int k, sustainNoteOn = m, hasSustainNote = h,
        cin = \<lparr>bytes = rest, eofbit = False\<rparr>\<rparr>"
proof (induction k arbitrary: t b)
  case 0
  then show ?case by simp
next
  case (Suc k)
  have "wrap32 (t + 512) = t + 512" "wrap32 (b + 1) = b + 1"
    using Suc.prems by (simp_all add: wrap32_id)
  then show ?case
    using Suc.prems Suc.IH [of "t + 512" "b + 1"]
    by (simp add: funpow_swap1 nextLoop_unsupported [OF assms] defaultOptions_def algebra_simps)
qed

lemma F8_unsupported: "dataBytesOf 0xF8 = None"
  by (simp add: dataBytesOf_def)

lemma nextLoop_A4_clock:
  "nextLoop defaultOptions (initialLoop ([0x90, 69, 127] @ replicate 100 0xF8))
    = \<lparr>totalSamplesProcessed = 512, stdinClosed = False, totalMidiEventsRead = 1, blockNum = 1,
        sustainNoteOn = [0x90, 69, 127], hasSustainNote = True,
        cin = \<lparr>bytes = replicate 99 0xF8, eofbit = False\<rparr>\<rparr>"
proof -
  have "replicate 100 (0xF8 :: byte) = 0xF8 # replicate 99 0xF8"
    by (simp add: numeral_eq_Suc)
  then show ?thesis
    by (simp add: nextLoop_def collectMidi_def initialLoop_def advanceCounters_def
        readEvents.simps readNextEvent_A4 readNextEvent_unsupported F8_unsupported noteEvent_def
        wrap32_def defaultOptions_def)
qed

lemma loop_A4_clock_100:
  "(nextLoop defaultOptions ^^ 100) (initialLoop ([0x90, 69, 127] @ replicate 100 0xF8))
    = \<lparr>totalSamplesProcessed = 51200, stdinClosed = False, totalMidiEventsRead = 1, blockNum = 100,
        sustainNoteOn = [0x90, 69, 127], hasSustainNote = True,
        cin = \<lparr>bytes = [], eofbit = False\<rparr>\<rparr>"
proof -
  have "(nextLoop defaultOptions ^^ Suc 99) (initialLoop ([0x90, 69, 127] @ replicate 100 0xF8))
    = (nextLoop defaultOptions ^^ 99)
        (nextLoop defaultOptions (initialLoop ([0x90, 69, 127] @ replicate 100 0xF8)))"
    by (simp only: funpow_Suc_right comp_apply)
  also have "\<dots> = \<lparr>totalSamplesProcessed = 512 + 512 * int 99, stdinClosed = False,
        totalMidiEventsRead = 1, blockNum = 1 + int 99, sustainNoteOn = [0x90, 69, 127],
        hasSustainNote = True, cin = \<lparr>bytes = [], eofbit = False\<rparr>\<rparr>"
    unfolding nextLoop_A4_clock
    using nextLoop_unsupported_run [OF F8_unsupported, of 512 99 1 1 "[0x90, 69, 127]" True "[]"]
    by simp
  finally show ?thesis
    by simp
qed

lemma loop_A4_clock_101:
  "(nextLoop defaultOptions ^^ 101) (initialLoop ([0x90, 69, 127] @ replicate 100 0xF8))
    = \<lparr>totalSamplesProcessed = 51712, stdinClosed = True, totalMidiEventsRead = 1, blockNum = 101,
        sustainNoteOn = [0x90, 69, 127], hasSustainNote = True,
        cin = \<lparr>bytes = [], eofbit = True\<rparr>\<rparr>"
proof -
  have "(nextLoop defaultOptions ^^ Suc 100) (initialLoop ([0x90, 69, 127] @ replicate 100 0xF8))
    = \<lparr>totalSamplesProcessed = 51712, stdinClosed = True, totalMidiEventsRead = 1, blockNum = 101,
        sustainNoteOn = [0x90, 69, 127], hasSustainNote = True,
        cin = \<lparr>bytes = [], eofbit = True\<rparr>\<rparr>"
    unfolding funpow_Suc_numeral loop_A4_clock_100
    by (simp add: nextLoop_def collectMidi_def advanceCounters_def readEvents.simps
        readNextEvent_eof wrap32_def defaultOptions_def)
  then show ?thesis
    by simp
qed

lemma renderSample_voice:
  "noteOn (fst (renderSample P gain v)) = noteOn v"
  "envelope (fst (renderSample P gain v)) = envelopeStep (noteOn v) (envelope v)"
  by (simp_all add: renderSample_def Let_def)

lemma renderSamples_voice:
  "noteOn (fst (renderSamples store gain i n v)) = noteOn v
   \<and> envelope (fst (renderSamples store gain i n v)) = (envelopeStep (noteOn v) ^^ n) (envelope v)"
proof (induction n arbitrary: i v)
  case 0
  then show ?case by simp
next
  case (Suc n)
  from Suc.IH [of "Suc i" "fst (renderSample (store i) gain v)"]
  show ?case
    by (simp add: split_beta renderSample_voice funpow_swap1)
qed

lemma processBlock_voice:
  "noteOn (fst (processBlock store v midi buffer))
     = noteOn (foldl handleMidi (updateParameters (store 0) v) midi)
   \<and> envelope (fst (processBlock store v midi buffer))
     = (envelopeStep (noteOn (foldl handleMidi (updateParameters (store 0) v) midi))
          ^^ getNumSamples buffer)
        (envelope (foldl handleMidi (updateParameters (store 0) v) midi))"
  using renderSamples_voice [of store "getGain (store 0)" 0 "getNumSamples buffer"
      "foldl handleMidi (updateParameters (store 0) v) midi"]
  by (simp add: processBlock_def Let_def split_beta)

lemma updateParameters_voice:
  "noteOn (updateParameters P v) = noteOn v" "envelope (updateParameters P v) = envelope v"
  by (simp_all add: updateParameters_def split: option.split)

lemma processBlock_held:
  assumes "101 \<le> getNumSamples buffer"
    and "(midi = [] \<and> noteOn v \<and> envelope v = 1) \<or> (\<exists>m. midi = [m] \<and> isNoteOn m)"
  shows "noteOn (fst (processBlock store v midi buffer))
    \<and> envelope (fst (processBlock store v midi buffer)) = 1"
  using assms(2)
proof
  assume "midi = [] \<and> noteOn v \<and> envelope v = 1"
  then show ?thesis
    by (simp add: processBlock_voice updateParameters_voice funpow_fixed attack_full)
next
  assume "\<exists>m. midi = [m] \<and> isNoteOn m"
  then show ?thesis
    using funpow_reaches [OF attack_101 attack_full assms(1)]
    by (auto simp: processBlock_voice handleMidi_def)
qed

lemma sustaining_step:
  assumes "sustaining st"
  shows "sustaining (renderIteration defaultOptions store st)"
proof -
  obtain s v out where st: "st = (s, v, out)"
    by (cases st)
  let ?midi = "fst (collectMidi s)"
  from assms st have c: "collectMidi s = (?midi, s)"
    and m: "?midi = [] \<or> (\<exists>m. ?midi = [m] \<and> isNoteOn m)"
    by (auto simp: sustaining_def collectMidi_def)
  have n: "101 \<le> getNumSamples (newAudioBuffer 2 512)"
    by (simp add: getNumSamples_newAudioBuffer)
  have "noteOn (fst (processBlock store v ?midi (newAudioBuffer 2 512)))
    \<and> envelope (fst (processBlock store v ?midi (newAudioBuffer 2 512))) = 1"
    using n
  proof (rule processBlock_held)
    show "(?midi = [] \<and> noteOn v \<and> envelope v = 1) \<or> (\<exists>m. ?midi = [m] \<and> isNoteOn m)"
      using m assms st by (auto simp: sustaining_def)
  qed
  moreover have "snd (collectMidi s) = s"
    using c by (metis snd_conv)
  ultimately show ?thesis
    using assms st
    by (simp add: sustaining_def renderIteration_def advanceCounters_def defaultOptions_def
        split_beta Let_def)
qed

lemma sustaining_first:
  "sustaining (renderIteration defaultOptions store (initialLoop [0x90, 69, 127], v, out))"
proof -
  have n: "101 \<le> getNumSamples (newAudioBuffer 2 512)"
    by (simp add: getNumSamples_newAudioBuffer)
  have "noteOn (fst (processBlock store v [[0x90, 69, 127]] (newAudioBuffer 2 512)))
    \<and> envelope (fst (processBlock store v [[0x90, 69, 127]] (newAudioBuffer 2 512))) = 1"
    using n by (rule processBlock_held) simp
  then show ?thesis
    by (simp add: sustaining_def renderIteration_def collectMidi_A4 advanceCounters_def
        defaultOptions_def split_beta Let_def)
qed

lemma sustaining_always:
  "sustaining ((renderIteration defaultOptions store ^^ Suc k) (initialLoop [0x90, 69, 127], v, out))"
proof (induction k)
  case 0
  show ?case using sustaining_first [of store v out] by simp
next
  case (Suc k)
  from sustaining_step [OF Suc, of store] show ?case by simp
qed

text \<open>
  Claim C1 on the code: the test for replaying the remembered Note On is
  \<open>blockNum < 100\<close>, and \<open>blockNum\<close> counts from the start of the render loop. On the
  input Note On A4 followed by 100 bytes \<open>0xF8\<close> (each ends one block's reading as an
  unsupported status byte) the stream is still open when block 100 starts and is found
  closed in block 100, a note is remembered, the loop goes on, and the first block after
  the closure, block 101, is handed no MIDI at all. When the same Note On is followed
  directly by the end of the stream, block 1 is handed the replayed Note On.
\<close>

theorem sustain_window_counted_from_loop_start:
  "\<not> stdinClosed ((nextLoop defaultOptions ^^ 100)
        (initialLoop ([0x90, 69, 127] @ replicate 100 0xF8)))
   \<and> stdinClosed ((nextLoop defaultOptions ^^ 101)
        (initialLoop ([0x90, 69, 127] @ replicate 100 0xF8)))
   \<and> hasSustainNote ((nextLoop defaultOptions ^^ 101)
        (initialLoop ([0x90, 69, 127] @ replicate 100 0xF8)))
   \<and> totalSamplesProcessed ((nextLoop defaultOptions ^^ 101)
        (initialLoop ([0x90, 69, 127] @ replicate 100 0xF8))) < maxSamplesOf defaultOptions
   \<and> midiOfBlock defaultOptions (initialLoop ([0x90, 69, 127] @ replicate 100 0xF8)) 101 = []
   \<and> midiOfBlock defaultOptions (initialLoop [0x90, 69, 127]) 1 = [[0x90, 69, 127]]"
proof -
  have "nextLoop defaultOptions (initialLoop [0x90, 69, 127])
    = \<lparr>totalSamplesProcessed = 512, stdinClosed = True, totalMidiEventsRead = 1, blockNum = 1,
         sustainNoteOn = [0x90, 69, 127], hasSustainNote = True,
         cin = \<lparr>bytes = [], eofbit = True\<rparr>\<rparr>"
    by (simp add: nextLoop_def collectMidi_A4 advanceCounters_def wrap32_def defaultOptions_def)
  then have "midiOfBlock defaultOptions (initialLoop [0x90, 69, 127]) 1 = [[0x90, 69, 127]]"
    by (simp add: midiOfBlock_def collectMidi_def)
  moreover have "midiOfBlock defaultOptions
      (initialLoop ([0x90, 69, 127] @ replicate 100 0xF8)) 101 = []"
    unfolding midiOfBlock_def loop_A4_clock_101 by (simp add: collectMidi_def)
  ultimately show ?thesis
    unfolding loop_A4_clock_100 loop_A4_clock_101
    by (simp add: maxSamplesOf_def defaultOptions_def)
qed

text \<open>
  Claim C3 on the code: for a message with status \<open>0xC0\<close> the reader consumes the one
  data byte and returns true without assigning the message, and the render loop adds the
  unchanged message to the block's buffer. After a Note On in the same block the voice
  engine is handed that Note On twice on the input \<open>[0x90, 69, 127, 0xC0, 5]\<close>, and once
  without the two bytes of the program change.
\<close>

theorem program_change_repeats_previous_event:
  "midiOfBlock defaultOptions (initialLoop [0x90, 69, 127, 0xC0, 5]) 0
     = [[0x90, 69, 127], [0x90, 69, 127]]
   \<and> midiOfBlock defaultOptions (initialLoop [0x90, 69, 127]) 0 = [[0x90, 69, 127]]"
  by (simp add: midiOfBlock_def collectMidi_A4_program_change collectMidi_A4)

text \<open>
  Claim C2 on the code: on the three bytes \<open>[0x90, 69, 127]\<close> followed by the end of the
  stream, with the duration unset, the render loop never ends (the sample counter is a
  multiple of 512 and never reaches \<open>maxSamples = 2147483647\<close>, also after wrapping
  around), and at the end of every block the note is still on with the envelope at 1: no
  Note Off is ever handed to the voice engine, so no release takes place.
\<close>

theorem note_held_and_render_never_ends:
  "render defaultOptions P [0x90, 69, 127] = None
   \<and> noteOn (fst (snd ((renderIteration defaultOptions (\<lambda>i. P) ^^ Suc k)
        (initialLoop [0x90, 69, 127], prepareToPlay 44100 Voice_init, []))))
   \<and> envelope (fst (snd ((renderIteration defaultOptions (\<lambda>i. P) ^^ Suc k)
        (initialLoop [0x90, 69, 127], prepareToPlay 44100 Voice_init, [])))) = 1"
proof -
  have "render defaultOptions P [0x90, 69, 127] = None"
    unfolding render_def
    by (simp add: maxSamplesOf_def defaultOptions_def)
      (rule renderLoop_never_ends, simp_all add: initialLoop_def)
  then show ?thesis
    using sustaining_always [where store = "\<lambda>i. P" and k = k
        and v = "prepareToPlay 44100 Voice_init" and out = "[]"]
    by (simp add: sustaining_def)
qed

lemma render_nothing_written:
  assumes "0 < numChannels opts" "maxSamplesOf opts \<le> 0"
  shows "map_option (samplesPerChannel opts) (render opts P input) = Some 0"
proof -
  let ?st = "(initialLoop input, prepareToPlay (real_of_int (optSampleRate opts)) Voice_init, [])"
  have "\<not> totalSamplesProcessed (fst ?st) < maxSamplesOf opts"
    using assms(2) by (simp add: initialLoop_def)
  then have "renderLoop opts (\<lambda>i. P) (maxSamplesOf opts) ?st = Some ?st"
    by (subst renderLoop.simps) simp
  then show ?thesis
    by (simp add: render_def samplesPerChannel_def)
qed

lemma f64_4410000000: "f64 4410000000 = 4410000000"
  unfolding f64_def by (subst rnd_at [where k = 32]) (simp_all add: rnd_at_def rne_def)

lemma maxSamples_100000_seconds:
  "maxSamplesOf (defaultOptions\<lparr>duration := 100000\<rparr>) = - (2 ^ 31)"
  by (simp add: maxSamplesOf_def defaultOptions_def f64_4410000000 castInt_def)

lemma nothing_written_at_100000_seconds:
  "map_option (samplesPerChannel (defaultOptions\<lparr>duration := 100000\<rparr>))
     (render (defaultOptions\<lparr>duration := 100000\<rparr>) P input) = Some 0"
  by (rule render_nothing_written) (simp_all add: maxSamples_100000_seconds, simp add: defaultOptions_def)




section \<open>Parameter reads within a block\<close>

lemma renderSamples_readOnce:
  assumes "\<And>j. j < n \<Longrightarrow> getIndex (store (i + j)) = waveform"
  shows "renderSamples store gain i n v = renderSamplesReadOnce waveform gain n v"
  using assms
proof (induction n arbitrary: i v)
  case 0
  then show ?case by simp
next
  case (Suc n)
  have here: "getIndex (store i) = waveform"
    using Suc.prems [of 0] by simp
  have "renderSamples store gain (Suc i) n v' = renderSamplesReadOnce waveform gain n v'" for v'
  proof (rule Suc.IH)
    fix j assume "j < n"
    then show "getIndex (store (Suc i + j)) = waveform"
      using Suc.prems [of "Suc j"] by simp
  qed
  then show ?case
    by (simp add: renderSample_def Let_def here)
qed

lemma processBlock_readOnce:
  assumes "\<forall>i<getNumSamples buffer. waveformParam (store i) = waveformParam (store 0)"
  shows "processBlock store v midiMessages buffer = processBlockReadOnce store v midiMessages buffer"
proof -
  have r: "renderSamples store gain 0 (getNumSamples buffer) v'
      = renderSamplesReadOnce (getIndex (store 0)) gain (getNumSamples buffer) v'" for gain v'
  proof (rule renderSamples_readOnce)
    fix j assume "j < getNumSamples buffer"
    with assms have "waveformParam (store j) = waveformParam (store 0)"
      by blast
    then show "getIndex (store (0 + j)) = getIndex (store 0)"
      by (simp only: getIndex_def add_0)
  qed
  show ?thesis
    unfolding processBlock_def processBlockReadOnce_def Let_def r ..
qed

text \<open>
  Claim C6, as amended. The gain is read from the Parameter Store once, before the sample
  loop, and that value serves every sample of the block. The waveform selector is read
  from the store inside the sample loop, once per sample. The code computes the same
  block as the read-once reference whenever the waveform parameter holds, at every sample
  of the block, the value it had at the start of the block, whatever happens to the
  other parameters during the block.
\<close>

theorem gain_read_once_waveform_read_per_sample:
  assumes "\<forall>i<getNumSamples buffer. waveformParam (store i) = waveformParam (store 0)"
  shows "processBlock store v midiMessages buffer = processBlockReadOnce store v midiMessages buffer"
  using assms by (rule processBlock_readOnce)

text \<open>A store whose gain changes after the first sample: the block is that of the
  reference, which uses the gain of the block start throughout.\<close>

theorem gain_read_once_waveform_read_per_sample_witness:
  "getNumSamples (newAudioBuffer 2 4) = 4
   \<and> waveformParam (gainChangingStore 1) = waveformParam (gainChangingStore 0)
   \<and> waveformParam (gainChangingStore 2) = waveformParam (gainChangingStore 0)
   \<and> waveformParam (gainChangingStore 3) = waveformParam (gainChangingStore 0)
   \<and> gainParam (gainChangingStore 1) \<noteq> gainParam (gainChangingStore 0)
   \<and> processBlock gainChangingStore heldVoice [] (newAudioBuffer 2 4)
     = processBlockReadOnce gainChangingStore heldVoice [] (newAudioBuffer 2 4)"
  using gain_read_once_waveform_read_per_sample [of "newAudioBuffer 2 4" gainChangingStore heldVoice "[]"]
  by (simp add: gainChangingStore_def getNumSamples_newAudioBuffer)

lemma heldVoice_code:
  "snd (renderSamples waveformChangingStore 1 0 (Suc (Suc 0))
      \<lparr>phase = Finite 0, currentFrequency = 11025, sampleRate = 44100, envelope = 1, noteOn = True\<rparr>)
    = [Finite 1, Finite 0]"
  unfolding renderSamples_Suc_samples renderSample_sample renderSample_voice_update
  by (simp add: waveformChangingStore_def getIndex_def waveformSwitch_def advancePhase_finite
      attack_full f32_values)

lemma heldVoice_reference:
  "snd (renderSamplesReadOnce 1 1 (Suc (Suc 0))
      \<lparr>phase = Finite 0, currentFrequency = 11025, sampleRate = 44100, envelope = 1, noteOn = True\<rparr>)
    = [Finite 1, Finite (- 1)]"
  by (simp add: waveformSwitch_def advancePhase_finite attack_full f32_values split_beta)

lemma heldVoice_two_samples:
  "snd (processBlock waveformChangingStore heldVoice [] (newAudioBuffer 2 2))
     = [[Finite 1, Finite 0], [Finite 1, Finite 0]]"
  "snd (processBlockReadOnce waveformChangingStore heldVoice [] (newAudioBuffer 2 2))
     = [[Finite 1, Finite (- 1)], [Finite 1, Finite (- 1)]]"
proof -
  have n: "nat 2 = Suc (Suc 0)"
    by simp
  have v: "updateParameters (waveformChangingStore 0) heldVoice
    = \<lparr>phase = Finite 0, currentFrequency = 11025, sampleRate = 44100, envelope = 1, noteOn = True\<rparr>"
    by (simp add: updateParameters_def waveformChangingStore_def heldVoice_def)
  have g: "getGain (waveformChangingStore 0) = 1" "getIndex (waveformChangingStore 0) = 1"
    by (simp_all add: getGain_def getIndex_def waveformChangingStore_def)
  show "snd (processBlock waveformChangingStore heldVoice [] (newAudioBuffer 2 2))
     = [[Finite 1, Finite 0], [Finite 1, Finite 0]]"
    unfolding processBlock_stereo n foldl_Nil v g heldVoice_code ..
  show "snd (processBlockReadOnce waveformChangingStore heldVoice [] (newAudioBuffer 2 2))
     = [[Finite 1, Finite (- 1)], [Finite 1, Finite (- 1)]]"
    unfolding processBlockReadOnce_stereo n foldl_Nil v g heldVoice_reference ..
qed

text \<open>
  Claim C6 as stated fails: when the waveform selector changes from Square to Sawtooth
  after the first sample of a block, the second sample of the code is the Sawtooth value
  0 and that of the read-once reference the Square value -1.
\<close>

theorem waveform_change_mid_block_is_heard:
  "processBlock waveformChangingStore heldVoice [] (newAudioBuffer 2 2)
     \<noteq> processBlockReadOnce waveformChangingStore heldVoice [] (newAudioBuffer 2 2)"
proof
  assume "processBlock waveformChangingStore heldVoice [] (newAudioBuffer 2 2)
     = processBlockReadOnce waveformChangingStore heldVoice [] (newAudioBuffer 2 2)"
  then have "snd (processBlock waveformChangingStore heldVoice [] (newAudioBuffer 2 2))
     = snd (processBlockReadOnce waveformChangingStore heldVoice [] (newAudioBuffer 2 2))"
    by simp
  then show False
    unfolding heldVoice_two_samples by simp
qed

section \<open>Note velocity\<close>

lemma f32_127_128: "f32 (127 / 128) = 127 / 128"
  by (subst f32_at [where k = "- 1"]) (simp_all add: rnd_at_def rne_def power_int_minus)

lemma decoded_velocity_range:
  fixes b :: byte
  assumes "1 \<le> b" "b \<le> 127"
  shows "1 \<le> floatValueToMidiByte (f32 (real_of_int (uint b) / 127))
    \<and> floatValueToMidiByte (f32 (real_of_int (uint b) / 127)) \<le> 127"
proof -
  let ?x = "real_of_int (uint b)"
  let ?y = "f32 (f32 (?x / 127) * 127)"
  have "uint (1 :: byte) \<le> uint b" "uint b \<le> uint (127 :: byte)"
    using assms by (simp_all only: word_le_def)
  then have x: "1 \<le> ?x" "?x \<le> 127"
    by (simp_all only: of_int_1_le_iff of_int_le_numeral_iff uint_1 uint_bintrunc) simp_all
  have p: "f32 (1 / 128) = 1 / 128"
    using f32_pow2 [of "- 7"] by (simp add: power_int_minus)
  have "f32 (1 / 128) \<le> f32 (?x / 127)"
    using x by (intro f32_mono) simp
  then have lo: "1 / 128 \<le> f32 (?x / 127)"
    by (simp only: p)
  have hi: "f32 (?x / 127) \<le> 1"
    using x by (intro f32_le_1) simp
  have "f32 (127 / 128) \<le> ?y"
    using lo by (intro f32_mono) simp
  then have "rne (127 / 128) \<le> rne ?y"
    unfolding f32_127_128 by (rule rne_mono)
  then have r1: "1 \<le> rne ?y"
    by (simp add: rne_def)
  have "?y \<le> f32 127"
    using hi by (intro f32_mono) simp
  then have "rne ?y \<le> rne 127"
    unfolding f32_127 by (rule rne_mono)
  then have r2: "rne ?y \<le> 127"
    by (simp add: rne_def)
  have "uint (word_of_int (rne ?y) :: byte) = rne ?y"
    using r1 r2 by (simp add: uint_word_of_int take_bit_int_eq_self)
  then have "uint (1 :: byte) \<le> uint (word_of_int (rne ?y) :: byte)"
    "uint (word_of_int (rne ?y) :: byte) \<le> uint (127 :: byte)"
    using r1 r2 by simp_all
  then have "(1 :: byte) \<le> word_of_int (rne ?y)" "(word_of_int (rne ?y) :: byte) \<le> 127"
    by (simp_all only: word_le_def)
  then show ?thesis
    using r1 r2 by (simp add: floatValueToMidiByte_def validVelocity_def jlimit_def)
qed

lemma noteOn_status:
  fixes status :: byte
  assumes "status AND 0xF0 = 0x90"
  shows "initialByte 0x90 (uint (status AND 0x0F) + 1) = status"
proof -
  have "uint (status AND 0x0F) \<le> uint (0x0F :: byte)"
    by (metis word_and_le1 word_le_def)
  then have "jlimit 0 15 (uint (status AND 0x0F) + 1 - 1) = uint (status AND 0x0F)"
    by (simp add: jlimit_def)
  then have "initialByte 0x90 (uint (status AND 0x0F) + 1) = (status AND 0xF0) OR (status AND 0x0F)"
    by (simp add: initialByte_def assms)
  also have "\<dots> = status AND (0xF0 OR 0x0F)"
    by (simp only: bit.conj_disj_distrib)
  also have "\<dots> = status"
  proof -
    have "(0xF0 OR 0x0F :: byte) = - 1" by simp
    then show ?thesis by (simp only: and.right_neutral bit.conj_one_right)
  qed
  finally show ?thesis .
qed

lemma readNextEvent_noteOn_velocity:
  fixes status d b b' :: byte
  assumes "status AND 0xF0 = 0x90" "1 \<le> b" "b \<le> 127" "1 \<le> b'" "b' \<le> 127"
  shows "sameButVelocity
     (fst (snd (readNextEvent msg \<lparr>bytes = status # d # b # rest, eofbit = False\<rparr>)))
     (fst (snd (readNextEvent msg \<lparr>bytes = status # d # b' # rest, eofbit = False\<rparr>)))"
  using assms decoded_velocity_range [of b] decoded_velocity_range [of b']
  by (simp add: readNextEvent_def cin_read_def dataBytesOf_def MidiMessage_noteOn_def
      noteOn_status)

lemma velocity_byte_nonzero: "(1 :: byte) \<le> d \<Longrightarrow> d \<noteq> 0"
  by auto

lemma sameButVelocity_handled:
  assumes "sameButVelocity m m'"
  shows "isNoteOn m = isNoteOn m' \<and> isNoteOff m = isNoteOff m' \<and> getNoteNumber m = getNoteNumber m'"
proof (cases "\<exists>s d1 d2 ds s' d1' d2' ds'. m = s # d1 # d2 # ds \<and> m' = s' # d1' # d2' # ds'")
  case True
  then obtain s d1 d2 ds s' d1' d2' ds' where "m = s # d1 # d2 # ds" "m' = s' # d1' # d2' # ds'"
    by blast
  with assms show ?thesis
    by (auto dest: velocity_byte_nonzero)
next
  case False
  then have "m = m'"
    using assms by (induction m m' rule: sameButVelocity.induct) auto
  then show ?thesis by simp
qed

lemma handleMidi_sameButVelocity:
  "sameButVelocity m m' \<Longrightarrow> handleMidi v m = handleMidi v m'"
  using sameButVelocity_handled [of m m'] by (simp add: handleMidi_def)

lemma foldl_handleMidi_sameButVelocity:
  "list_all2 sameButVelocity ms ms' \<Longrightarrow> foldl handleMidi v ms = foldl handleMidi v ms'"
proof (induction ms ms' arbitrary: v rule: list_all2_induct)
  case Nil
  then show ?case by simp
next
  case (Cons m ms m' ms')
  then show ?case
    by (simp add: handleMidi_sameButVelocity)
qed

lemma processBlock_sameButVelocity:
  "list_all2 sameButVelocity ms ms' \<Longrightarrow> processBlock store v ms buffer = processBlock store v ms' buffer"
  by (simp add: processBlock_def foldl_handleMidi_sameButVelocity)

text \<open>
  Claim C10. Two runs of the engine from the same voice state, block by block with the
  same Parameter Store and with MIDI buffers that are the same except that corresponding
  Note On messages carry different velocity bytes, both in 1 to 127, end in the same
  voice state and produce the same output buffers. (By \<open>readNextEvent_noteOn_velocity\<close>
  the messages decoded from two Note On byte triples that differ in a velocity byte of 1
  to 127 are related in this way.)
\<close>

theorem velocity_never_reaches_the_audio:
  assumes "list_all2 sameBlocks blocks blocks'"
  shows "runBlocks v blocks buffer = runBlocks v blocks' buffer"
  using assms
proof (induction blocks blocks' arbitrary: v rule: list_all2_induct)
  case Nil
  then show ?case by simp
next
  case (Cons b bs b' bs')
  from Cons.hyps(1) have "processBlock (fst b) v (snd b) buffer = processBlock (fst b') v (snd b') buffer"
    using processBlock_sameButVelocity [of "snd b" "snd b'" "fst b" v buffer]
    by (simp add: sameBlocks_def)
  then show ?case
    using Cons.IH by (simp add: split_beta)
qed

text \<open>Note On A4 at velocity 127 and at velocity 1, each followed by its Note Off.\<close>

theorem velocity_never_reaches_the_audio_witness:
  "list_all2 sameBlocks
     [(\<lambda>i. defaultParams, [[0x90, 69, 127]]), (\<lambda>i. defaultParams, [[0x80, 69, 0]])]
     [(\<lambda>i. defaultParams, [[0x90, 69, 1]]), (\<lambda>i. defaultParams, [[0x80, 69, 0]])]
   \<and> runBlocks Voice_init
        [(\<lambda>i. defaultParams, [[0x90, 69, 127]]), (\<lambda>i. defaultParams, [[0x80, 69, 0]])]
        (newAudioBuffer 2 512)
     = runBlocks Voice_init
        [(\<lambda>i. defaultParams, [[0x90, 69, 1]]), (\<lambda>i. defaultParams, [[0x80, 69, 0]])]
        (newAudioBuffer 2 512)"
proof -
  have same: "list_all2 sameBlocks
     [(\<lambda>i. defaultParams, [[0x90, 69, 127]]), (\<lambda>i. defaultParams, [[0x80, 69, 0]])]
     [(\<lambda>i. defaultParams, [[0x90, 69, 1]]), (\<lambda>i. defaultParams, [[0x80, 69, 0]])]"
    by (simp add: sameBlocks_def)
  from same velocity_never_reaches_the_audio [OF same, of Voice_init "newAudioBuffer 2 512"]
  show ?thesis by (rule conjI)
qed

section \<open>Every sample of a run\<close>

lemma f64_mono: "x \<le> y \<Longrightarrow> f64 x \<le> f64 y"
  by (simp add: f64_def rnd_mono)

lemma f64_nonneg: "0 \<le> x \<Longrightarrow> 0 \<le> f64 x"
  by (simp add: f64_def rnd_nonneg)

lemma f32_20000: "f32 20000 = 20000"
  by (subst f32_at [where k = 14]) (simp_all add: rnd_at_def rne_def)

lemma f32_14080: "f32 14080 = 14080"
  by (subst f32_at [where k = 13]) (simp_all add: rnd_at_def rne_def)

lemma f32_8000: "f32 8000 = 8000"
  by (subst f32_at [where k = 12]) (simp_all add: rnd_at_def rne_def)





lemma f64_5: "f64 5 = 5"
  unfolding f64_def by (subst rnd_at [where k = 2]) (simp_all add: rnd_at_def rne_def power_int_minus)

lemma f64_32: "f64 32 = 32"
  using rnd_pow2 [of 53 5] by (simp add: f64_def)


lemma f64_14080: "f64 14080 = 14080"
  unfolding f64_def by (subst rnd_at [where k = 13]) (simp_all add: rnd_at_def rne_def power_int_minus)


lemma note_hertz_range:
  assumes "n \<le> 127"
  shows "0 \<le> f32 (getMidiNoteInHertz n) \<and> f32 (getMidiNoteInHertz n) \<le> 14080"
proof -
  let ?e = "f64 (real_of_int (n - 69) / 12)"
  let ?p = "f64 (2 powr ?e)"
  have "real_of_int (n - 69) / 12 \<le> 5"
    using assms by simp
  then have "?e \<le> 5"
    using f64_mono [of "real_of_int (n - 69) / 12" 5] by (simp add: f64_5)
  then have "(2::real) powr ?e \<le> 2 powr 5"
    by (intro powr_mono) simp_all
  then have "(2::real) powr ?e \<le> 32"
    by simp
  then have p: "?p \<le> 32"
    using f64_mono [of "2 powr ?e" 32] by (simp add: f64_32)
  have p0: "0 \<le> ?p"
    by (intro f64_nonneg) simp
  have "f64 (440 * ?p) \<le> f64 14080"
    using p by (intro f64_mono) simp
  then have "f32 (f64 (440 * ?p)) \<le> f32 14080"
    unfolding f64_14080 by (rule f32_mono)
  moreover have "0 \<le> f32 (f64 (440 * ?p))"
    using p0 by (intro f32_nonneg f64_nonneg) simp
  ultimately show ?thesis
    by (simp add: getMidiNoteInHertz_def f32_14080)
qed















lemma notes_to_127_in_range:
  assumes "14080 \<le> r" "getNoteNumber m \<le> 127"
  shows "noteInRange r m"
  using assms note_hertz_range [of "getNoteNumber m"] by (simp add: noteInRange_def)



lemma sawtoothAt20000_not_in_range:
  "\<not> blockInRange (f32 8000) (sawtoothAt20000, [])"
  by (simp add: blockInRange_def frequencyInRange_def sawtoothAt20000_def f32_8000)



end
